theory Spec2Isabelle
  imports Main "HOL-Library.Word" "HOL-Library.AList"
begin

section \<open>Library functions used by the code\<close>

text \<open>
  Go strings are byte sequences, modelled as \<open>string\<close> (a list of 8-bit characters).
  Go's \<open>int\<close> is taken at 64 bits (amd64, arm64), modelled as \<open>64 word\<close> read as two's
  complement; \<open>int32\<close> is \<open>32 word\<close>.
\<close>

type_synonym go_int = "64 word"
type_synonym int32 = "32 word"

subsection \<open>Package regexp\<close>

text \<open>
  Regular expressions with character classes, matched with Brzozowski derivatives.
  The patterns of the code only use ASCII literals and the classes \<open>\d\<close> (ASCII digits) and
  \<open>.\<close> (anything but a newline), for which matching bytes and matching UTF-8 runes agree.
\<close>

datatype regex =
    RZero
  | ROne
  | RClass "char \<Rightarrow> bool"
  | RCat regex regex
  | RAlt regex regex
  | RStar regex

definition RPlus :: "regex \<Rightarrow> regex" where
  "RPlus r = RCat r (RStar r)"

definition RLit :: "char \<Rightarrow> regex" where
  "RLit c = RClass (\<lambda>x. x = c)"

definition is_digit :: "char \<Rightarrow> bool" where
  "is_digit c = (48 \<le> (of_char c :: int) \<and> (of_char c :: int) \<le> 57)"

definition RDigit :: regex where
  "RDigit = RClass is_digit"

definition RDot :: regex where
  "RDot = RClass (\<lambda>c. c \<noteq> CHR 0x0A)"

definition RAny :: regex where
  "RAny = RClass (\<lambda>c. True)"

fun nullable :: "regex \<Rightarrow> bool" where
  "nullable RZero = False"
| "nullable ROne = True"
| "nullable (RClass P) = False"
| "nullable (RCat r s) = (nullable r \<and> nullable s)"
| "nullable (RAlt r s) = (nullable r \<or> nullable s)"
| "nullable (RStar r) = True"

fun deriv :: "char \<Rightarrow> regex \<Rightarrow> regex" where
  "deriv c RZero = RZero"
| "deriv c ROne = RZero"
| "deriv c (RClass P) = (if P c then ROne else RZero)"
| "deriv c (RCat r s) =
     (if nullable r then RAlt (RCat (deriv c r) s) (deriv c s) else RCat (deriv c r) s)"
| "deriv c (RAlt r s) = RAlt (deriv c r) (deriv c s)"
| "deriv c (RStar r) = RCat (deriv c r) (RStar r)"

fun matches :: "regex \<Rightarrow> string \<Rightarrow> bool" where
  "matches r [] = nullable r"
| "matches r (c # cs) = matches (deriv c r) cs"

text \<open>
  A compiled pattern: \<open>bol\<close> and \<open>eol\<close> say whether the pattern starts with \<open>^\<close> and ends with
  \<open>$\<close> (end of text, no multi-line flag). \<open>MatchString\<close> reports whether the string contains
  any match of the pattern.
\<close>

record pattern =
  bol :: bool
  body :: regex
  eol :: bool

definition MatchString :: "pattern \<Rightarrow> string \<Rightarrow> bool" where
  "MatchString p s =
     matches (RCat (if bol p then ROne else RStar RAny)
                   (RCat (body p) (if eol p then ROne else RStar RAny))) s"

subsection \<open>Package strings\<close>

definition HasPrefix :: "string \<Rightarrow> string \<Rightarrow> bool" where
  "HasPrefix s p = (take (length p) s = p)"

definition HasSuffix :: "string \<Rightarrow> string \<Rightarrow> bool" where
  "HasSuffix s p = (length p \<le> length s \<and> drop (length s - length p) s = p)"

definition TrimPrefix :: "string \<Rightarrow> string \<Rightarrow> string" where
  "TrimPrefix s p = (if HasPrefix s p then drop (length p) s else s)"

definition TrimSuffix :: "string \<Rightarrow> string \<Rightarrow> string" where
  "TrimSuffix s p = (if HasSuffix s p then take (length s - length p) s else s)"

text \<open>\<open>LastIndex s sep\<close>: the index of the last instance of \<open>sep\<close> in \<open>s\<close>, or \<open>-1\<close>.\<close>

definition LastIndex :: "string \<Rightarrow> string \<Rightarrow> int" where
  "LastIndex s sep =
     (case filter (\<lambda>i. take (length sep) (drop i s) = sep) (rev [0 ..< Suc (length s)]) of
        [] \<Rightarrow> - 1
      | i # _ \<Rightarrow> int i)"

text \<open>\<open>Split s sep\<close> for a separator of one byte, as every call of the code has it.\<close>

fun split_acc :: "char \<Rightarrow> string \<Rightarrow> string \<Rightarrow> string list" where
  "split_acc sep cur [] = [rev cur]"
| "split_acc sep cur (c # cs) =
     (if c = sep then rev cur # split_acc sep [] cs else split_acc sep (c # cur) cs)"

definition Split :: "string \<Rightarrow> char \<Rightarrow> string list" where
  "Split s sep = split_acc sep [] s"

text \<open>
  Slice expressions \<open>s[lo:]\<close> and \<open>s[:hi]\<close> and index expressions \<open>xs[i]\<close> panic out of
  range; \<open>None\<close> is the panic.
\<close>

definition slice_from :: "string \<Rightarrow> int \<Rightarrow> string option" where
  "slice_from s lo = (if 0 \<le> lo \<and> lo \<le> int (length s) then Some (drop (nat lo) s) else None)"

definition slice_to :: "string \<Rightarrow> int \<Rightarrow> string option" where
  "slice_to s hi = (if 0 \<le> hi \<and> hi \<le> int (length s) then Some (take (nat hi) s) else None)"

definition index :: "'a list \<Rightarrow> nat \<Rightarrow> 'a option" where
  "index xs i = (if i < length xs then Some (xs ! i) else None)"

subsection \<open>Package strconv\<close>

datatype numError = ErrSyntax | ErrRange

definition maxInt :: int where
  "maxInt = 2 ^ 63 - 1"

definition maxUint64 :: int where
  "maxUint64 = 2 ^ 64 - 1"

definition digit_val :: "char \<Rightarrow> int" where
  "digit_val c = of_char c - 48"

text \<open>
  \<open>ParseUint s 10 0\<close>: the loop stops at the first byte that is no digit (syntax error,
  value 0) and at the first overflow of 64 bits (range error, the largest value). The
  accumulator \<open>n\<close> is a \<open>uint64\<close>, here an integer kept below \<open>2 ^ 64\<close> by the two checks.
\<close>

fun ParseUint_loop :: "int \<Rightarrow> string \<Rightarrow> int \<times> numError option" where
  "ParseUint_loop n [] = (n, None)"
| "ParseUint_loop n (c # cs) =
     (if \<not> is_digit c then (0, Some ErrSyntax)
      else if maxUint64 div 10 + 1 \<le> n then (maxUint64, Some ErrRange)
      else let n1 = n * 10 + digit_val c in
        if maxUint64 < n1 then (maxUint64, Some ErrRange) else ParseUint_loop n1 cs)"

definition ParseUint :: "string \<Rightarrow> int \<times> numError option" where
  "ParseUint s = (if s = [] then (0, Some ErrSyntax) else ParseUint_loop 0 s)"

text \<open>
  \<open>ParseInt s 10 0\<close>: an optional sign, then \<open>ParseUint\<close>; a value that does not fit a
  signed 64-bit integer is replaced by the nearest one that does, with a range error.
\<close>

definition ParseInt :: "string \<Rightarrow> int \<times> numError option" where
  "ParseInt s =
     (if s = [] then (0, Some ErrSyntax)
      else
        let neg = (hd s = CHR ''-'');
            s1 = (if hd s = CHR ''+'' \<or> hd s = CHR ''-'' then tl s else s);
            (un, err) = ParseUint s1
        in if err = Some ErrSyntax then (0, err)
           else if \<not> neg \<and> 2 ^ 63 \<le> un then (2 ^ 63 - 1, Some ErrRange)
           else if neg \<and> 2 ^ 63 < un then (- (2 ^ 63), Some ErrRange)
           else (if neg then - un else un, None))"

text \<open>\<open>Atoi s\<close> is \<open>ParseInt s 10 0\<close> converted to \<open>int\<close>.\<close>

definition Atoi :: "string \<Rightarrow> go_int \<times> numError option" where
  "Atoi s = (case ParseInt s of (i, err) \<Rightarrow> (word_of_int i, err))"

text \<open>\<open>Itoa i\<close>: the decimal representation, with a minus sign for a negative value.\<close>

definition digit_char :: "int \<Rightarrow> char" where
  "digit_char d = char_of (48 + d)"

function nat_dec :: "int \<Rightarrow> string" where
  "nat_dec n = (if n < 10 then [digit_char n] else nat_dec (n div 10) @ [digit_char (n mod 10)])"
  by pat_completeness auto
termination
  by (relation "measure nat") auto

declare nat_dec.simps [simp del]

definition int_dec :: "int \<Rightarrow> string" where
  "int_dec i = (if i < 0 then CHR ''-'' # nat_dec (- i) else nat_dec i)"

definition Itoa :: "go_int \<Rightarrow> string" where
  "Itoa i = int_dec (sint i)"


text \<open>
  A Go map is modelled as an association list with distinct keys, \<open>m[k] = v\<close> as
  \<open>AList.update k v m\<close>. A \<open>range\<close> loop over a map visits the entries in an order the
  language leaves open: every function with such a loop takes the order as an argument
  \<open>ord\<close>, which is meant to return a permutation of the entries (\<open>range_order\<close>).
\<close>

type_synonym ('k, 'v) gomap = "('k \<times> 'v) list"

definition range_order :: "(('k \<times> 'v) list \<Rightarrow> ('k \<times> 'v) list) \<Rightarrow> bool" where
  "range_order ord = (\<forall>m. distinct (map fst m) \<longrightarrow> distinct (map fst (ord m)) \<and> set (ord m) = set m)"

section \<open>Package annotation (internal/annotation/annotations.go)\<close>

definition Prefix :: string where
  "Prefix = ''spoditor.io/''"

definition Separator :: string where
  "Separator = ''_''"

record QualifiedName =
  Qualifier :: string
  Name :: string

subsection \<open>defaultCollector\<close>

text \<open>
  The loop body for one annotation \<open>(k, v)\<close>; the annotations come in the order in which
  the range loop visits them. \<open>None\<close> is a panic of a slice expression.
\<close>

definition collect_entry ::
  "string \<times> string \<Rightarrow> (QualifiedName, string) gomap \<Rightarrow> (QualifiedName, string) gomap option" where
  "collect_entry kv result =
     (let k = fst kv; v = snd kv in
      if \<not> HasPrefix k Prefix then Some result
      else
        let name = TrimPrefix k Prefix;
            separatorIndex = LastIndex name Separator
        in if separatorIndex = - 1
           then Some (AList.update \<lparr>Qualifier = [], Name = name\<rparr> v result)
           else (case slice_from name (separatorIndex + 1) of
                   None \<Rightarrow> None
                 | Some q \<Rightarrow>
                     (case slice_to name separatorIndex of
                        None \<Rightarrow> None
                      | Some n \<Rightarrow> Some (AList.update \<lparr>Qualifier = q, Name = n\<rparr> v result))))"

fun collect_loop ::
  "(string \<times> string) list \<Rightarrow> (QualifiedName, string) gomap \<Rightarrow> (QualifiedName, string) gomap option" where
  "collect_loop [] result = Some result"
| "collect_loop (kv # rest) result =
     (case collect_entry kv result of None \<Rightarrow> None | Some result' \<Rightarrow> collect_loop rest result')"

definition defaultCollector :: "(string \<times> string) list \<Rightarrow> (QualifiedName, string) gomap option" where
  "defaultCollector annotations = collect_loop annotations []"

subsection \<open>CommonPodQualifier\<close>

definition rangeRegex :: pattern where
  "rangeRegex = \<lparr>bol = True, body = RCat (RPlus RDigit) (RCat (RLit (CHR ''-'')) (RPlus RDigit)), eol = True\<rparr>"

definition exactNumberRegex :: pattern where
  "exactNumberRegex = \<lparr>bol = True, body = RPlus RDigit, eol = True\<rparr>"

definition lowerBoundRegex :: pattern where
  "lowerBoundRegex = \<lparr>bol = True, body = RCat (RPlus RDigit) (RLit (CHR ''-'')), eol = True\<rparr>"

definition upperBoundRegex :: pattern where
  "upperBoundRegex = \<lparr>bol = True, body = RCat (RLit (CHR ''-'')) (RPlus RDigit), eol = True\<rparr>"

text \<open>
  The errors of \<open>Atoi\<close> are dropped, as in the source (\<open>min, _ := strconv.Atoi(...)\<close>).
  \<open>None\<close> is a panic of an index expression.
\<close>

definition CommonPodQualifier :: "go_int \<Rightarrow> string \<Rightarrow> bool option" where
  "CommonPodQualifier ordinal qualifier =
     (if qualifier = [] then Some True
      else if MatchString rangeRegex qualifier then
        (let bounds = Split qualifier (CHR ''-'') in
         case index bounds 0 of
           None \<Rightarrow> None
         | Some b0 \<Rightarrow>
             (case index bounds 1 of
                None \<Rightarrow> None
              | Some b1 \<Rightarrow>
                  (let min = fst (Atoi b0); max = fst (Atoi b1)
                   in Some (sint min \<le> sint ordinal \<and> sint ordinal \<le> sint max))))
      else if MatchString exactNumberRegex qualifier then
        (let target = fst (Atoi qualifier) in Some (ordinal = target))
      else if MatchString lowerBoundRegex qualifier then
        (let min = fst (Atoi (TrimSuffix qualifier ''-'')) in Some (sint min \<le> sint ordinal))
      else if MatchString upperBoundRegex qualifier then
        (let max = fst (Atoi (TrimPrefix qualifier ''-'')) in Some (sint ordinal \<le> sint max))
      else Some False)"


section \<open>Package identifier\<close>

text \<open>
  \<open>FindStringSubmatch\<close> for an anchored pattern \<open>^(g1)c(g2)$\<close> with two groups around a
  literal byte \<open>c\<close>: group 1 is greedy, so of all the ways to split the text the match
  takes the one with the longest group 1. The result holds the whole match and the two
  groups.
\<close>

definition FindStringSubmatch ::
  "regex \<Rightarrow> char \<Rightarrow> regex \<Rightarrow> string \<Rightarrow> (string \<times> string \<times> string) option" where
  "FindStringSubmatch g1 c g2 s =
     (case filter (\<lambda>i. s ! i = c \<and> matches g1 (take i s) \<and> matches g2 (drop (Suc i) s))
             (rev [0 ..< length s]) of
        [] \<Rightarrow> None
      | i # _ \<Rightarrow> Some (s, take i s, drop (Suc i) s))"

datatype identError = ErrMissingLabel | ErrInvalidLabelValue | ErrParsingOrdinal numError

definition podNameLabel :: string where
  "podNameLabel = ''statefulset.kubernetes.io/pod-name''"

text \<open>
  \<open>LabelSSPodIdentifier\<close> of src/unnamed/part_003, with
  \<open>statefulsetPodNameRegex = ^(.+)-(\d+)$\<close>. The argument is the label map of the
  object; the result is the triple \<open>(ssName, ordinal, err)\<close>.
\<close>

definition LabelSSPodIdentifier_part_003 ::
  "(string \<rightharpoonup> string) \<Rightarrow> string \<times> go_int \<times> identError option" where
  "LabelSSPodIdentifier_part_003 labels =
     (case labels podNameLabel of
        None \<Rightarrow> ([], - 1, Some ErrMissingLabel)
      | Some podName \<Rightarrow>
          (case FindStringSubmatch (RPlus RDot) (CHR ''-'') (RPlus RDigit) podName of
             None \<Rightarrow> ([], - 1, Some ErrInvalidLabelValue)
           | Some (whole, ssName, ordinalStr) \<Rightarrow>
               (case Atoi ordinalStr of
                  (ordinal, Some err) \<Rightarrow> ([], - 1, Some (ErrParsingOrdinal err))
                | (ordinal, None) \<Rightarrow> (ssName, ordinal, None))))"

text \<open>
  \<open>LabelSSPodIdentifier\<close> of src/unnamed/part_004: the format is checked with
  \<open>regexp.MatchString(".+-\\d+", l)\<close>, a pattern without anchors, and the error of \<open>Atoi\<close>
  is dropped. Its two anonymous errors ("missing statefulset label", "unexpected label
  value") are written \<open>ErrMissingLabel\<close> and \<open>ErrInvalidLabelValue\<close>. \<open>None\<close> is a panic
  of a slice expression.
\<close>

definition labelFormat_part_004 :: pattern where
  "labelFormat_part_004 =
     \<lparr>bol = False, body = RCat (RPlus RDot) (RCat (RLit (CHR ''-'')) (RPlus RDigit)), eol = False\<rparr>"

definition LabelSSPodIdentifier_part_004 ::
  "(string \<rightharpoonup> string) \<Rightarrow> (string \<times> go_int \<times> identError option) option" where
  "LabelSSPodIdentifier_part_004 labels =
     (case labels podNameLabel of
        None \<Rightarrow> Some ([], - 1, Some ErrMissingLabel)
      | Some l \<Rightarrow>
          if \<not> MatchString labelFormat_part_004 l then Some ([], - 1, Some ErrInvalidLabelValue)
          else
            (let i = LastIndex l ''-'' in
             case slice_from l (i + 1) of
               None \<Rightarrow> None
             | Some digits \<Rightarrow>
                 (case slice_to l i of
                    None \<Rightarrow> None
                  | Some name \<Rightarrow> Some (name, fst (Atoi digits), None))))"

section \<open>The pod specification (k8s.io/api/core/v1)\<close>

text \<open>
  The structs of the orchestrator, with the fields the handlers read or write and a few
  of their neighbours; the other fields are carried along unchanged and are left out.
\<close>

record ContainerPort =
  cp_Name :: string
  cp_HostPort :: int32
  cp_ContainerPort :: int32
  cp_Protocol :: string
  cp_HostIP :: string

record EnvVar =
  ev_Name :: string
  ev_Value :: string

record VolumeMount =
  vm_Name :: string
  vm_ReadOnly :: bool
  vm_MountPath :: string
  vm_SubPath :: string

record Container =
  c_Name :: string
  c_Image :: string
  c_Ports :: "ContainerPort list"
  c_Env :: "EnvVar list"
  c_VolumeMounts :: "VolumeMount list"

record ConfigMapVolumeSource =
  cm_Name :: string
  cm_Optional :: "bool option"

record SecretVolumeSource =
  s_SecretName :: string
  s_Optional :: "bool option"

record Volume =
  v_Name :: string
  v_ConfigMap :: "ConfigMapVolumeSource option"
  v_Secret :: "SecretVolumeSource option"

record PodSpec =
  Volumes :: "Volume list"
  Containers :: "Container list"

record Pod =
  Labels :: "(string, string) gomap"
  Annotations :: "(string, string) gomap"
  Spec :: PodSpec

section \<open>Handlers\<close>

record containerPortsConfig =
  cpc_Name :: string
  cpc_Ports :: "ContainerPort list"

record portConfigValue =
  pcv_Containers :: "containerPortsConfig list"

text \<open>The field \<open>cfg\<close> is a pointer: \<open>None\<close> is \<open>nil\<close>.\<close>

record portConfig =
  pc_qualifier :: string
  pc_cfg :: "portConfigValue option"

record mountConfigValue =
  mcv_Volumes :: "Volume list"
  mcv_Containers :: "Container list"

record mountConfig =
  mc_qualifier :: string
  mc_cfg :: "mountConfigValue option"

text \<open>
  A configuration travels as \<open>any\<close> between \<open>Parse\<close> and \<open>Mutate\<close>: \<open>NilConfig\<close> is the
  \<open>nil\<close> interface value, the other constructors are the dynamic types.
\<close>

datatype config = NilConfig | PortConfig portConfig | MountConfig mountConfig

datatype error =
    ErrUnexpectedConfigType
  | ErrUnmarshal string
  | ErrPortConfiguration error
  | ErrVolumeMountConfiguration error
  | ErrHandlerParse nat error
  | ErrHandlerMutate nat error

subsection \<open>HostPortHandler (src/internal/pod_webhook.go, lines 85 to 269)\<close>

definition HostPort :: string where
  "HostPort = ''host-port''"

definition PodOrdinal :: string where
  "PodOrdinal = ''POD_ORDINAL''"

definition PortPrefix :: string where
  "PortPrefix = ''PORT_''"

fun appendEnvVarIfNotExists :: "EnvVar list \<Rightarrow> EnvVar \<Rightarrow> EnvVar list" where
  "appendEnvVarIfNotExists [] envVar = [envVar]"
| "appendEnvVarIfNotExists (existing # envVars) envVar =
     (if ev_Name existing = ev_Name envVar then envVar # envVars
      else existing # appendEnvVarIfNotExists envVars envVar)"

text \<open>
  The loop over \<open>container.Ports\<close>: the first port with the name gets the new host port;
  the flag is \<open>foundPort\<close>.
\<close>

fun setHostPort :: "string \<Rightarrow> int32 \<Rightarrow> ContainerPort list \<Rightarrow> ContainerPort list \<times> bool" where
  "setHostPort name newHostPort [] = ([], False)"
| "setHostPort name newHostPort (p # ps) =
     (if cp_Name p = name then (p\<lparr>cp_HostPort := newHostPort\<rparr> # ps, True)
      else (case setHostPort name newHostPort ps of (ps', found) \<Rightarrow> (p # ps', found)))"

text \<open>
  The body of the loop over \<open>containerConfig.Ports\<close>, on the container and the map
  \<open>portEnvVars[containerConfig.Name]\<close>.
\<close>

definition processPort ::
  "go_int \<Rightarrow> Container \<times> (string, string) gomap \<Rightarrow> ContainerPort
     \<Rightarrow> Container \<times> (string, string) gomap" where
  "processPort ordinal st portConfig =
     (let container = fst st; envs = snd st in
      if sint (cp_HostPort portConfig) \<le> 0 then (container, envs)
      else
        let newHostPort = cp_HostPort portConfig + (ucast ordinal :: int32);
            portVarName = PortPrefix @ cp_Name portConfig
        in case setHostPort (cp_Name portConfig) newHostPort (c_Ports container) of
             (ports', True) \<Rightarrow>
               (container\<lparr>c_Ports := ports'\<rparr>,
                AList.update portVarName (Itoa (scast newHostPort)) envs)
           | (ports', False) \<Rightarrow>
               (container\<lparr>c_Ports := c_Ports container @ [portConfig\<lparr>cp_HostPort := newHostPort\<rparr>]\<rparr>,
                AList.update portVarName (Itoa (scast newHostPort)) envs))"

text \<open>
  The loop over \<open>spec.Containers\<close> for one \<open>containerConfig\<close>; the map of port variables
  is created once for the \<open>containerConfig\<close> and lives through this loop.
\<close>

fun processContainers ::
  "((string, string) gomap \<Rightarrow> (string, string) gomap) \<Rightarrow> go_int \<Rightarrow> containerPortsConfig
     \<Rightarrow> (string, string) gomap \<Rightarrow> Container list \<Rightarrow> Container list" where
  "processContainers ord ordinal containerConfig envs [] = []"
| "processContainers ord ordinal containerConfig envs (container # rest) =
     (if c_Name container \<noteq> cpc_Name containerConfig
      then container # processContainers ord ordinal containerConfig envs rest
      else
        (case foldl (processPort ordinal) (container, envs) (cpc_Ports containerConfig) of
           (container1, envs1) \<Rightarrow>
             (let env1 = appendEnvVarIfNotExists (c_Env container1)
                           \<lparr>ev_Name = PodOrdinal, ev_Value = Itoa ordinal\<rparr>;
                  env2 = foldl (\<lambda>env (varName, varValue).
                                  appendEnvVarIfNotExists env \<lparr>ev_Name = varName, ev_Value = varValue\<rparr>)
                           env1 (ord envs1)
              in container1\<lparr>c_Env := env2\<rparr>
                   # processContainers ord ordinal containerConfig envs1 rest)))"

text \<open>
  \<open>Mutate\<close> returns the specification as it leaves it and the error; \<open>None\<close> is a panic
  (an index out of range in the qualifier matcher, a \<open>nil\<close> \<open>cfg\<close> pointer).
\<close>

definition HostPortHandler_Mutate ::
  "((string, string) gomap \<Rightarrow> (string, string) gomap) \<Rightarrow> PodSpec \<Rightarrow> go_int \<Rightarrow> config
     \<Rightarrow> (PodSpec \<times> error option) option" where
  "HostPortHandler_Mutate ord spec ordinal cfg =
     (case cfg of
        PortConfig m \<Rightarrow>
          (case CommonPodQualifier ordinal (pc_qualifier m) of
             None \<Rightarrow> None
           | Some False \<Rightarrow> Some (spec, None)
           | Some True \<Rightarrow>
               (case pc_cfg m of
                  None \<Rightarrow> None
                | Some v \<Rightarrow>
                    Some (spec\<lparr>Containers :=
                            foldl (\<lambda>cs containerConfig. processContainers ord ordinal containerConfig [] cs)
                              (Containers spec) (pcv_Containers v)\<rparr>,
                          None)))
      | _ \<Rightarrow> Some (spec, Some ErrUnexpectedConfigType))"

text \<open>
  The parser: the first entry of the feature in the order of the range loop decides.
  \<open>json.Unmarshal\<close> into a \<open>portConfigValue\<close> is the argument \<open>unmarshal\<close>.
\<close>

fun hostPort_parser ::
  "(string \<Rightarrow> string + portConfigValue) \<Rightarrow> (QualifiedName \<times> string) list \<Rightarrow> config \<times> error option" where
  "hostPort_parser unmarshal [] = (NilConfig, None)"
| "hostPort_parser unmarshal ((k, v) # rest) =
     (if Name k \<noteq> HostPort then hostPort_parser unmarshal rest
      else (case unmarshal v of
              Inl err \<Rightarrow> (NilConfig, Some (ErrPortConfiguration (ErrUnmarshal err)))
            | Inr c \<Rightarrow> (PortConfig \<lparr>pc_qualifier = Qualifier k, pc_cfg = Some c\<rparr>, None)))"

subsection \<open>MountHandler (src/internal/annotation/ports/hostport_test.go, lines 358 to 510)\<close>

definition MountVolume :: string where
  "MountVolume = ''mount-volume''"

text \<open>The body of the loop over \<open>m.cfg.Volumes\<close>: the copy of one volume.\<close>

definition renameVolume :: "go_int \<Rightarrow> Volume \<Rightarrow> Volume" where
  "renameVolume ordinal v =
     (let ordinalSuffix = ''-'' @ Itoa ordinal;
          v1 = (case v_ConfigMap v of
                  None \<Rightarrow> v
                | Some cm \<Rightarrow> v\<lparr>v_ConfigMap := Some (cm\<lparr>cm_Name := cm_Name cm @ ordinalSuffix\<rparr>)\<rparr>)
      in case v_Secret v of
           None \<Rightarrow> v1
         | Some sec \<Rightarrow> v1\<lparr>v_Secret := Some (sec\<lparr>s_SecretName := s_SecretName sec @ ordinalSuffix\<rparr>)\<rparr>)"

text \<open>The loop over \<open>spec.Containers\<close> for one \<open>source\<close> of \<open>m.cfg.Containers\<close>.\<close>

fun addVolumeMounts :: "Container \<Rightarrow> Container list \<Rightarrow> Container list" where
  "addVolumeMounts source [] = []"
| "addVolumeMounts source (c # cs) =
     (if c_Name source = c_Name c
      then c\<lparr>c_VolumeMounts := c_VolumeMounts c @ c_VolumeMounts source\<rparr> # addVolumeMounts source cs
      else c # addVolumeMounts source cs)"

definition MountHandler_Mutate :: "PodSpec \<Rightarrow> go_int \<Rightarrow> config \<Rightarrow> (PodSpec \<times> error option) option" where
  "MountHandler_Mutate spec ordinal cfg =
     (case cfg of
        MountConfig m \<Rightarrow>
          (case CommonPodQualifier ordinal (mc_qualifier m) of
             None \<Rightarrow> None
           | Some False \<Rightarrow> Some (spec, None)
           | Some True \<Rightarrow>
               (case mc_cfg m of
                  None \<Rightarrow> None
                | Some v \<Rightarrow>
                    (let volumes = map (renameVolume ordinal) (mcv_Volumes v)
                     in Some (spec\<lparr>Volumes := Volumes spec @ volumes,
                                   Containers := foldl (\<lambda>cs source. addVolumeMounts source cs)
                                                   (Containers spec) (mcv_Containers v)\<rparr>,
                              None))))
      | _ \<Rightarrow> Some (spec, Some ErrUnexpectedConfigType))"

fun volumeMountParser ::
  "(string \<Rightarrow> string + mountConfigValue) \<Rightarrow> (QualifiedName \<times> string) list \<Rightarrow> config \<times> error option" where
  "volumeMountParser unmarshal [] = (NilConfig, None)"
| "volumeMountParser unmarshal ((k, v) # rest) =
     (if Name k \<noteq> MountVolume then volumeMountParser unmarshal rest
      else (case unmarshal v of
              Inl err \<Rightarrow> (NilConfig, Some (ErrVolumeMountConfiguration (ErrUnmarshal err)))
            | Inr c \<Rightarrow>
                if length (mcv_Volumes c) = 0 then (NilConfig, None)
                else (MountConfig \<lparr>mc_qualifier = Qualifier k, mc_cfg = Some c\<rparr>, None)))"


section \<open>The mutation pipeline\<close>

text \<open>
  The interface \<open>annotation.Handler\<close>: \<open>Mutate\<close>, and \<open>Parse\<close> for \<open>GetParser().Parse\<close>.
  \<open>Mutate\<close> works on the specification in place: it returns the specification as it
  leaves it together with the error (\<open>None\<close>: a panic).
\<close>

record Handler =
  Mutate :: "PodSpec \<Rightarrow> go_int \<Rightarrow> config \<Rightarrow> (PodSpec \<times> error option) option"
  Parse :: "(QualifiedName, string) gomap \<Rightarrow> config \<times> error option"

text \<open>
  The struct \<open>PodMutator\<close> of src/unnamed/part_006; \<open>PodArgumentor\<close> of
  src/internal/pod_webhook.go and of src/unnamed/part_005 has the same three fields
  (and a decoder, which is applied before the pod reaches this model).
\<close>

record PodMutator =
  ssPodId :: "Pod \<Rightarrow> (string \<times> go_int \<times> identError option) option"
  handlers :: "Handler list"
  collector :: "Pod \<Rightarrow> (QualifiedName, string) gomap option"

text \<open>
  \<open>applyHandlers\<close> of src/unnamed/part_006 (\<open>PodMutator\<close>) and of src/unnamed/part_005
  (\<open>PodArgumentor\<close>): the two bodies are the same. The loop carries the index \<open>i\<close> of
  the handler, which the errors mention.
\<close>

fun applyHandlers_loop ::
  "(QualifiedName, string) gomap \<Rightarrow> go_int \<Rightarrow> nat \<Rightarrow> Handler list \<Rightarrow> PodSpec
     \<Rightarrow> (PodSpec \<times> error option) option" where
  "applyHandlers_loop annotations ordinal i [] spec = Some (spec, None)"
| "applyHandlers_loop annotations ordinal i (handler # rest) spec =
     (case Parse handler annotations of
        (config, Some err) \<Rightarrow> Some (spec, Some (ErrHandlerParse i err))
      | (config, None) \<Rightarrow>
          (case config of
             NilConfig \<Rightarrow> applyHandlers_loop annotations ordinal (Suc i) rest spec
           | _ \<Rightarrow>
               (case Mutate handler spec ordinal config of
                  None \<Rightarrow> None
                | Some (spec', Some err) \<Rightarrow> Some (spec', Some (ErrHandlerMutate i err))
                | Some (spec', None) \<Rightarrow> applyHandlers_loop annotations ordinal (Suc i) rest spec')))"

definition applyHandlers :: "PodMutator \<Rightarrow> Pod \<Rightarrow> go_int \<Rightarrow> (Pod \<times> error option) option" where
  "applyHandlers m pod ordinal =
     (case collector m pod of
        None \<Rightarrow> None
      | Some annotations \<Rightarrow>
          (case applyHandlers_loop annotations ordinal 0 (handlers m) (Spec pod) of
             None \<Rightarrow> None
           | Some (spec', err) \<Rightarrow> Some (pod\<lparr>Spec := spec'\<rparr>, err)))"

text \<open>\<open>PodMutator.Default\<close> of src/unnamed/part_006: the pod as it leaves it, and the error.\<close>

definition PodMutator_Default :: "PodMutator \<Rightarrow> Pod \<Rightarrow> (Pod \<times> error option) option" where
  "PodMutator_Default m pod =
     (case ssPodId m pod of
        None \<Rightarrow> None
      | Some (ss, ordinal, Some err) \<Rightarrow> Some (pod, None)
      | Some (ss, ordinal, None) \<Rightarrow> applyHandlers m pod ordinal)"

text \<open>
  The responses of \<open>Handle\<close>: \<open>admission.Allowed\<close> with its message (no patch, the pod is
  admitted as it came), or the patch that turns the pod of the request into the given
  one.
\<close>

datatype allowedMessage =
    IgnoreNoneStatefulsetPod
  | CantParseAnnotation
  | FailedToMutate
  | MutationFailed

datatype Response = Allowed allowedMessage | PatchResponseFromRaw Pod

text \<open>\<open>PodArgumentor.Handle\<close> of src/unnamed/part_005 (package webhook).\<close>

definition webhook_PodArgumentor_Handle :: "PodMutator \<Rightarrow> Pod \<Rightarrow> Response option" where
  "webhook_PodArgumentor_Handle r pod =
     (case ssPodId r pod of
        None \<Rightarrow> None
      | Some (ss, ordinal, Some err) \<Rightarrow> Some (Allowed IgnoreNoneStatefulsetPod)
      | Some (ss, ordinal, None) \<Rightarrow>
          (case applyHandlers r pod ordinal of
             None \<Rightarrow> None
           | Some (pod', Some err) \<Rightarrow> Some (Allowed MutationFailed)
           | Some (pod', None) \<Rightarrow> Some (PatchResponseFromRaw pod')))"

text \<open>
  \<open>PodArgumentor.Handle\<close> of src/internal/pod_webhook.go (package internal), lines 31 to
  64. The loop collects the annotations for every handler, and leaves with
  \<open>admission.Allowed\<close> when \<open>err != nil || c == nil\<close>.
\<close>

fun internal_Handle_loop :: "PodMutator \<Rightarrow> go_int \<Rightarrow> Handler list \<Rightarrow> Pod \<Rightarrow> Response option" where
  "internal_Handle_loop r ordinal [] pod = Some (PatchResponseFromRaw pod)"
| "internal_Handle_loop r ordinal (h # rest) pod =
     (case collector r pod of
        None \<Rightarrow> None
      | Some annotations \<Rightarrow>
          (case Parse h annotations of
             (c, Some err) \<Rightarrow> Some (Allowed CantParseAnnotation)
           | (c, None) \<Rightarrow>
               (case c of
                  NilConfig \<Rightarrow> Some (Allowed CantParseAnnotation)
                | _ \<Rightarrow>
                    (case Mutate h (Spec pod) ordinal c of
                       None \<Rightarrow> None
                     | Some (spec', Some err) \<Rightarrow> Some (Allowed FailedToMutate)
                     | Some (spec', None) \<Rightarrow> internal_Handle_loop r ordinal rest (pod\<lparr>Spec := spec'\<rparr>)))))"

definition internal_PodArgumentor_Handle :: "PodMutator \<Rightarrow> Pod \<Rightarrow> Response option" where
  "internal_PodArgumentor_Handle r pod =
     (case ssPodId r pod of
        None \<Rightarrow> None
      | Some (ss, ordinal, Some err) \<Rightarrow> Some (Allowed IgnoreNoneStatefulsetPod)
      | Some (ss, ordinal, None) \<Rightarrow> internal_Handle_loop r ordinal (handlers r) pod)"

text \<open>
  The two handlers and the pipeline as \<open>SetupPodWebhookWithManager\<close> builds it
  (src/unnamed/part_006): the volume handler first, then the host-port handler.
\<close>

definition MountHandler ::
  "((QualifiedName, string) gomap \<Rightarrow> (QualifiedName, string) gomap)
     \<Rightarrow> (string \<Rightarrow> string + mountConfigValue) \<Rightarrow> Handler" where
  "MountHandler ord unmarshal =
     \<lparr>Mutate = MountHandler_Mutate, Parse = (\<lambda>annotations. volumeMountParser unmarshal (ord annotations))\<rparr>"

definition HostPortHandler ::
  "((QualifiedName, string) gomap \<Rightarrow> (QualifiedName, string) gomap)
     \<Rightarrow> ((string, string) gomap \<Rightarrow> (string, string) gomap)
     \<Rightarrow> (string \<Rightarrow> string + portConfigValue) \<Rightarrow> Handler" where
  "HostPortHandler ord ord' unmarshal =
     \<lparr>Mutate = HostPortHandler_Mutate ord', Parse = (\<lambda>annotations. hostPort_parser unmarshal (ord annotations))\<rparr>"

section \<open>Notions used in the statements\<close>

text \<open>The language of a regular expression, against which the matcher is verified.\<close>

definition conc :: "string set \<Rightarrow> string set \<Rightarrow> string set" where
  "conc A B = {u @ v | u v. u \<in> A \<and> v \<in> B}"

inductive_set star :: "string set \<Rightarrow> string set" for A :: "string set" where
  star_nil: "[] \<in> star A"
| star_app: "u \<in> A \<Longrightarrow> v \<in> star A \<Longrightarrow> u @ v \<in> star A"

fun lang :: "regex \<Rightarrow> string set" where
  "lang RZero = {}"
| "lang ROne = {[]}"
| "lang (RClass P) = {[c] | c. P c}"
| "lang (RCat r s) = conc (lang r) (lang s)"
| "lang (RAlt r s) = lang r \<union> lang s"
| "lang (RStar r) = star (lang r)"

text \<open>A digit run: one or more ASCII digits. Its value is read in base 10.\<close>

definition digits :: "string \<Rightarrow> bool" where
  "digits s = (s \<noteq> [] \<and> (\<forall>c \<in> set s. is_digit c))"

definition dec_val :: "string \<Rightarrow> int" where
  "dec_val s = foldl (\<lambda>n c. n * 10 + digit_val c) 0 s"

text \<open>
  The forms of a qualifier: empty, \<open>N\<close>, \<open>N-M\<close>, \<open>N-\<close> and \<open>-M\<close>, with \<open>N\<close> and \<open>M\<close> digit
  runs.
\<close>

definition qualifier_form :: "string \<Rightarrow> bool" where
  "qualifier_form q =
     (q = [] \<or> digits q
      \<or> (\<exists>a b. q = a @ ''-'' @ b \<and> digits a \<and> digits b)
      \<or> (\<exists>a. q = a @ ''-'' \<and> digits a)
      \<or> (\<exists>b. q = ''-'' @ b \<and> digits b))"

text \<open>
  The parsed name of an annotation key, in the words of the specification: the key is
  the prefix followed by a remainder; without a separator in the remainder the feature
  is the remainder and the qualifier is empty, otherwise the remainder is the feature,
  the separator and a qualifier without separator (the split is at the last separator).
\<close>

definition splits_at_last :: "string \<Rightarrow> QualifiedName \<Rightarrow> bool" where
  "splits_at_last remainder qn =
     (if CHR ''_'' \<in> set remainder
      then remainder = Name qn @ ''_'' @ Qualifier qn \<and> CHR ''_'' \<notin> set (Qualifier qn)
      else Name qn = remainder \<and> Qualifier qn = [])"

definition parsed_key :: "string \<Rightarrow> QualifiedName \<Rightarrow> bool" where
  "parsed_key k qn = (\<exists>remainder. k = Prefix @ remainder \<and> splits_at_last remainder qn)"

text \<open>No two annotations with the prefix have the same parsed name.\<close>

definition no_clash :: "(string \<times> string) list \<Rightarrow> bool" where
  "no_clash annotations =
     (\<forall>k k' qn. k \<in> fst ` set annotations \<and> k' \<in> fst ` set annotations
          \<and> parsed_key k qn \<and> parsed_key k' qn \<longrightarrow> k = k')"

text \<open>The name that the collector computes for a key with the prefix.\<close>

definition collected_name :: "string \<Rightarrow> QualifiedName" where
  "collected_name k =
     (let name = TrimPrefix k Prefix; separatorIndex = LastIndex name Separator
      in if separatorIndex = - 1 then \<lparr>Qualifier = [], Name = name\<rparr>
         else \<lparr>Qualifier = drop (nat (separatorIndex + 1)) name, Name = take (nat separatorIndex) name\<rparr>)"

text \<open>One step of the collector on a map, for any annotation.\<close>

definition collect_step ::
  "(QualifiedName, string) gomap \<Rightarrow> string \<times> string \<Rightarrow> (QualifiedName, string) gomap" where
  "collect_step result kv =
     (if HasPrefix (fst kv) Prefix then AList.update (collected_name (fst kv)) (snd kv) result else result)"

text \<open>
  The format of the pod-name label in the words of the specification: a non-empty name,
  a hyphen and a digit run that ends the string.
\<close>

definition label_format :: "string \<Rightarrow> bool" where
  "label_format l = (\<exists>name ds. l = name @ ''-'' @ ds \<and> name \<noteq> [] \<and> digits ds)"

text \<open>
  A container keeps its name, and its environment list stays free of duplicate names if
  it was.
\<close>

definition env_kept :: "Container \<Rightarrow> Container \<Rightarrow> bool" where
  "env_kept c c' = (c_Name c' = c_Name c
     \<and> (distinct (map ev_Name (c_Env c)) \<longrightarrow> distinct (map ev_Name (c_Env c'))))"

text \<open>
  The port and the environment variable that a name denotes in a list: the first entry
  of that name.
\<close>

definition port_named :: "string \<Rightarrow> ContainerPort list \<Rightarrow> ContainerPort option" where
  "port_named n ps = find (\<lambda>q. cp_Name q = n) ps"

definition env_named :: "string \<Rightarrow> EnvVar list \<Rightarrow> EnvVar option" where
  "env_named n es = find (\<lambda>e. ev_Name e = n) es"

text \<open>The loop that sets the port variables of a container, and the body for one container.\<close>

definition setPortEnvVars :: "EnvVar list \<Rightarrow> (string, string) gomap \<Rightarrow> EnvVar list" where
  "setPortEnvVars env vars =
     foldl (\<lambda>env (varName, varValue).
              appendEnvVarIfNotExists env \<lparr>ev_Name = varName, ev_Value = varValue\<rparr>) env vars"

definition processContainer ::
  "((string, string) gomap \<Rightarrow> (string, string) gomap) \<Rightarrow> go_int \<Rightarrow> containerPortsConfig
     \<Rightarrow> (string, string) gomap \<Rightarrow> Container \<Rightarrow> Container" where
  "processContainer ord ordinal containerConfig envs container =
     (case foldl (processPort ordinal) (container, envs) (cpc_Ports containerConfig) of
        (container1, envs1) \<Rightarrow>
          container1\<lparr>c_Env :=
            setPortEnvVars
              (appendEnvVarIfNotExists (c_Env container1) \<lparr>ev_Name = PodOrdinal, ev_Value = Itoa ordinal\<rparr>)
              (ord envs1)\<rparr>)"

text \<open>
  The declarations that count for a port name: those of that name with a host port above
  zero, in the order in which \<open>Mutate\<close> visits them; within a list of ports, and within a
  configuration for the containers of one name.
\<close>

definition positive_named :: "string \<Rightarrow> ContainerPort list \<Rightarrow> ContainerPort list" where
  "positive_named n ps = filter (\<lambda>p. cp_Name p = n \<and> 0 < sint (cp_HostPort p)) ps"

definition declared_in :: "string \<Rightarrow> string \<Rightarrow> containerPortsConfig list \<Rightarrow> ContainerPort list" where
  "declared_in containerName n ccs =
     positive_named n (concat (map cpc_Ports (filter (\<lambda>cc. cpc_Name cc = containerName) ccs)))"

definition declared_ports :: "string \<Rightarrow> string \<Rightarrow> portConfigValue \<Rightarrow> ContainerPort list" where
  "declared_ports containerName n v = declared_in containerName n (pcv_Containers v)"

text \<open>
  What a run of declarations makes of the port, of the entry in the map of port variables
  and of the environment variable that a name denotes: without a declaration they stay;
  otherwise the port is the one that was there, or else a copy of the first declaration,
  and it carries the host port of the last declaration plus the offset \<open>d\<close>; the two
  variables hold the decimal string of that host port.
\<close>

definition overwritten_port ::
  "ContainerPort option \<Rightarrow> ContainerPort list \<Rightarrow> int32 \<Rightarrow> ContainerPort option" where
  "overwritten_port old decls d =
     (if decls = [] then old
      else Some ((case old of Some q \<Rightarrow> q | None \<Rightarrow> hd decls)
                   \<lparr>cp_HostPort := cp_HostPort (last decls) + d\<rparr>))"

definition overwritten_value :: "string option \<Rightarrow> ContainerPort list \<Rightarrow> int32 \<Rightarrow> string option" where
  "overwritten_value old decls d =
     (if decls = [] then old else Some (Itoa (scast (cp_HostPort (last decls) + d))))"

definition overwritten_env ::
  "string \<Rightarrow> EnvVar option \<Rightarrow> ContainerPort list \<Rightarrow> int32 \<Rightarrow> EnvVar option" where
  "overwritten_env n old decls d =
     (if decls = [] then old
      else Some \<lparr>ev_Name = PortPrefix @ n, ev_Value = Itoa (scast (cp_HostPort (last decls) + d))\<rparr>)"

text \<open>
  The map of port variables while the containers of one \<open>containerConfig\<close> are visited:
  it is empty or holds what the ports of the \<open>containerConfig\<close> have put there.
\<close>

definition port_vars_of :: "go_int \<Rightarrow> containerPortsConfig \<Rightarrow> (string, string) gomap \<Rightarrow> bool" where
  "port_vars_of ordinal cc envs =
     (distinct (map fst envs)
      \<and> (\<forall>n. map_of envs (PortPrefix @ n) = None
             \<or> map_of envs (PortPrefix @ n)
                  = overwritten_value None (positive_named n (cpc_Ports cc)) (ucast ordinal)))"

section \<open>The scenario of a test\<close>

text \<open>
  The pod and the pipeline of the test "Should configure port forwarding based on
  annotations" of src/unnamed/part_006: one container \<open>test-container\<close>, the label
  \<open>test-statefulset-2\<close>, one annotation \<open>spoditor.io/host-port\<close> that declares the port
  \<open>http\<close> with container port 8080 and host port 30000. The JSON text of the annotation
  is abbreviated to \<open>test_json\<close>, and \<open>json.Unmarshal\<close> maps it to the value it denotes.
  Every range loop visits its map in the order of the list.
\<close>

definition test_json :: string where
  "test_json = ''{containers:[{name:test-container,ports:[{name:http,containerPort:8080,hostPort:30000}]}]}''"

definition test_unmarshal_ports :: "string \<Rightarrow> string + portConfigValue" where
  "test_unmarshal_ports v =
     (if v = test_json
      then Inr \<lparr>pcv_Containers =
                 [\<lparr>cpc_Name = ''test-container'',
                    cpc_Ports = [\<lparr>cp_Name = ''http'', cp_HostPort = 30000, cp_ContainerPort = 8080,
                                  cp_Protocol = [], cp_HostIP = []\<rparr>]\<rparr>]\<rparr>
      else Inl ''unexpected end of JSON input'')"

definition test_unmarshal_mounts :: "string \<Rightarrow> string + mountConfigValue" where
  "test_unmarshal_mounts v = Inl ''unexpected end of JSON input''"

definition test_pipeline :: PodMutator where
  "test_pipeline =
     \<lparr>ssPodId = (\<lambda>pod. Some (LabelSSPodIdentifier_part_003 (map_of (Labels pod)))),
      handlers = [MountHandler (\<lambda>m. m) test_unmarshal_mounts,
                  HostPortHandler (\<lambda>m. m) (\<lambda>m. m) test_unmarshal_ports],
      collector = (\<lambda>pod. defaultCollector (Annotations pod))\<rparr>"

definition test_pod :: Pod where
  "test_pod =
     \<lparr>Labels = [(podNameLabel, ''test-statefulset-2'')],
      Annotations = [(''spoditor.io/host-port'', test_json)],
      Spec = \<lparr>Volumes = [],
               Containers = [\<lparr>c_Name = ''test-container'', c_Image = ''nginx'', c_Ports = [],
                                c_Env = [], c_VolumeMounts = []\<rparr>]\<rparr>\<rparr>"

text \<open>The pod that the test expects.\<close>

definition test_pod_mutated :: Pod where
  "test_pod_mutated =
     \<lparr>Labels = [(podNameLabel, ''test-statefulset-2'')],
      Annotations = [(''spoditor.io/host-port'', test_json)],
      Spec = \<lparr>Volumes = [],
               Containers =
                 [\<lparr>c_Name = ''test-container'', c_Image = ''nginx'',
                    c_Ports = [\<lparr>cp_Name = ''http'', cp_HostPort = 30002, cp_ContainerPort = 8080,
                                 cp_Protocol = [], cp_HostIP = []\<rparr>],
                    c_Env = [\<lparr>ev_Name = ''POD_ORDINAL'', ev_Value = ''2''\<rparr>,
                             \<lparr>ev_Name = ''PORT_http'', ev_Value = ''30002''\<rparr>],
                    c_VolumeMounts = []\<rparr>]\<rparr>\<rparr>"

section \<open>The matcher of regular expressions is correct\<close>

lemma conc_iff: "w \<in> conc A B \<longleftrightarrow> (\<exists>u v. w = u @ v \<and> u \<in> A \<and> v \<in> B)"
  by (auto simp: conc_def)

lemma star_cons_split:
  assumes "x \<in> star A" and "x = c # w"
  shows "\<exists>u v. w = u @ v \<and> c # u \<in> A \<and> v \<in> star A"
  using assms
proof (induction arbitrary: w rule: star.induct)
  case star_nil
  then show ?case by simp
next
  case (star_app u v)
  show ?case
  proof (cases u)
    case Nil
    with star_app show ?thesis by simp
  next
    case (Cons d u')
    with star_app.prems have "d = c" and "w = u' @ v" by simp_all
    with Cons star_app.hyps show ?thesis by blast
  qed
qed

lemma nullable_lang: "nullable r \<longleftrightarrow> [] \<in> lang r"
  by (induction r) (auto simp: conc_iff intro: star.intros)

lemma lang_deriv: "w \<in> lang (deriv c r) \<longleftrightarrow> c # w \<in> lang r"
proof (induction r arbitrary: w)
  case (RCat r s)
  show ?case
  proof
    assume a: "w \<in> lang (deriv c (RCat r s))"
    have "(\<exists>u v. w = u @ v \<and> c # u \<in> lang r \<and> v \<in> lang s) \<or> (nullable r \<and> c # w \<in> lang s)"
      using a RCat by (auto simp: conc_iff split: if_splits)
    then show "c # w \<in> lang (RCat r s)"
    proof
      assume "\<exists>u v. w = u @ v \<and> c # u \<in> lang r \<and> v \<in> lang s"
      then obtain u v where "w = u @ v" "c # u \<in> lang r" "v \<in> lang s" by blast
      then have "c # w = (c # u) @ v \<and> c # u \<in> lang r \<and> v \<in> lang s" by simp
      then show ?thesis unfolding lang.simps conc_iff by blast
    next
      assume "nullable r \<and> c # w \<in> lang s"
      then have "c # w = [] @ (c # w) \<and> [] \<in> lang r \<and> c # w \<in> lang s"
        by (simp add: nullable_lang)
      then show ?thesis unfolding lang.simps conc_iff by blast
    qed
  next
    assume "c # w \<in> lang (RCat r s)"
    then obtain u v where uv: "c # w = u @ v" "u \<in> lang r" "v \<in> lang s"
      by (auto simp: conc_iff)
    show "w \<in> lang (deriv c (RCat r s))"
    proof (cases u)
      case Nil
      with uv RCat show ?thesis by (auto simp: nullable_lang)
    next
      case (Cons d u')
      with uv RCat have "w = u' @ v" "u' \<in> lang (deriv c r)" by auto
      with uv show ?thesis by (auto simp: conc_iff)
    qed
  qed
next
  case (RStar r)
  show ?case
  proof
    assume "w \<in> lang (deriv c (RStar r))"
    then obtain u v where "w = u @ v" "c # u \<in> lang r" "v \<in> star (lang r)"
      using RStar by (auto simp: conc_iff)
    then show "c # w \<in> lang (RStar r)"
      using star_app [of "c # u" "lang r" v] by simp
  next
    assume "c # w \<in> lang (RStar r)"
    then show "w \<in> lang (deriv c (RStar r))"
      using star_cons_split [of "c # w" "lang r" c w] RStar by (auto simp: conc_iff)
  qed
qed auto

lemma matches_lang: "matches r w \<longleftrightarrow> w \<in> lang r"
  by (induction w arbitrary: r) (simp_all add: nullable_lang lang_deriv)

lemma star_class: "w \<in> star {[c] | c. P c} \<longleftrightarrow> (\<forall>c \<in> set w. P c)"
proof
  assume "w \<in> star {[c] | c. P c}"
  then show "\<forall>c \<in> set w. P c"
    by (induction rule: star.induct) auto
next
  assume "\<forall>c \<in> set w. P c"
  then show "w \<in> star {[c] | c. P c}"
  proof (induction w)
    case Nil
    show ?case by (rule star_nil)
  next
    case (Cons a w)
    then have "[a] \<in> {[c] | c. P c}" and "w \<in> star {[c] | c. P c}" by auto
    then have "[a] @ w \<in> star {[c] | c. P c}" by (rule star_app)
    then show ?case by simp
  qed
qed

lemma matches_plus_class: "matches (RPlus (RClass P)) w \<longleftrightarrow> w \<noteq> [] \<and> (\<forall>c \<in> set w. P c)"
proof -
  have "matches (RPlus (RClass P)) w \<longleftrightarrow> (\<exists>u v. w = u @ v \<and> (\<exists>c. u = [c] \<and> P c) \<and> (\<forall>d \<in> set v. P d))"
    by (simp add: matches_lang RPlus_def conc_iff star_class)
  also have "\<dots> \<longleftrightarrow> (\<exists>c v. w = c # v \<and> P c \<and> (\<forall>d \<in> set v. P d))"
    by (metis append_Cons append_Nil)
  also have "\<dots> \<longleftrightarrow> w \<noteq> [] \<and> (\<forall>c \<in> set w. P c)"
    by (cases w) auto
  finally show ?thesis .
qed

lemma matches_digits: "matches (RPlus RDigit) w \<longleftrightarrow> digits w"
  by (simp add: RDigit_def matches_plus_class digits_def)

lemma matches_cat: "matches (RCat r s) w \<longleftrightarrow> (\<exists>u v. w = u @ v \<and> matches r u \<and> matches s v)"
  by (simp add: matches_lang conc_iff)

lemma matches_lit: "matches (RLit c) w \<longleftrightarrow> w = [c]"
  by (auto simp: matches_lang RLit_def)

lemma matches_one: "matches ROne w \<longleftrightarrow> w = []"
  by (simp add: matches_lang)

lemma matches_star_any: "matches (RStar RAny) w"
  using star_class [of w "\<lambda>c. True"] by (simp add: matches_lang RAny_def)

lemma MatchString_anchored:
  "bol p \<Longrightarrow> eol p \<Longrightarrow> MatchString p s \<longleftrightarrow> matches (body p) s"
  by (simp add: MatchString_def matches_cat matches_one)

lemma MatchString_unanchored:
  "\<not> bol p \<Longrightarrow> \<not> eol p \<Longrightarrow>
     MatchString p s \<longleftrightarrow> (\<exists>u v w. s = u @ v @ w \<and> matches (body p) v)"
  by (auto simp: MatchString_def matches_cat matches_star_any)

lemma rangeRegex_iff:
  "MatchString rangeRegex s \<longleftrightarrow> (\<exists>a b. s = a @ CHR ''-'' # b \<and> digits a \<and> digits b)"
  by (auto simp: rangeRegex_def MatchString_anchored matches_cat matches_lit matches_digits)

lemma exactNumberRegex_iff: "MatchString exactNumberRegex s \<longleftrightarrow> digits s"
  by (simp add: exactNumberRegex_def MatchString_anchored matches_digits)

lemma lowerBoundRegex_iff:
  "MatchString lowerBoundRegex s \<longleftrightarrow> (\<exists>a. s = a @ [CHR ''-''] \<and> digits a)"
  by (auto simp: lowerBoundRegex_def MatchString_anchored matches_cat matches_lit matches_digits)

lemma upperBoundRegex_iff:
  "MatchString upperBoundRegex s \<longleftrightarrow> (\<exists>b. s = CHR ''-'' # b \<and> digits b)"
  by (auto simp: upperBoundRegex_def MatchString_anchored matches_cat matches_lit matches_digits)

section \<open>Facts about strconv\<close>

lemma is_digit_val: "is_digit c \<Longrightarrow> 0 \<le> digit_val c \<and> digit_val c \<le> 9"
  by (auto simp: is_digit_def digit_val_def)

lemma dec_val_snoc: "dec_val (s @ [c]) = dec_val s * 10 + digit_val c"
  by (simp add: dec_val_def)

lemma foldl_dec_mono:
  "\<forall>c \<in> set s. is_digit c \<Longrightarrow> 0 \<le> n \<Longrightarrow> n \<le> foldl (\<lambda>n c. n * 10 + digit_val c) n s"
proof (induction s arbitrary: n)
  case Nil
  then show ?case by simp
next
  case (Cons c s)
  then have d: "0 \<le> digit_val c" using is_digit_val [of c] by simp
  with Cons.prems have "n \<le> n * 10 + digit_val c" by simp
  moreover have "n * 10 + digit_val c \<le> foldl (\<lambda>n c. n * 10 + digit_val c) (n * 10 + digit_val c) s"
    using Cons.prems d by (intro Cons.IH) simp_all
  ultimately show ?case by simp
qed

lemma dec_val_nonneg: "\<forall>c \<in> set s. is_digit c \<Longrightarrow> 0 \<le> dec_val s"
  using foldl_dec_mono [of s 0] by (simp add: dec_val_def)

lemma ParseUint_loop_digits:
  "\<forall>c \<in> set s. is_digit c \<Longrightarrow> 0 \<le> n \<Longrightarrow> n \<le> maxUint64 \<Longrightarrow>
     ParseUint_loop n s =
       (let v = foldl (\<lambda>n c. n * 10 + digit_val c) n s
        in if v \<le> maxUint64 then (v, None) else (maxUint64, Some ErrRange))"
proof (induction s arbitrary: n)
  case Nil
  then show ?case by simp
next
  case (Cons c s)
  let ?n1 = "n * 10 + digit_val c"
  let ?v = "foldl (\<lambda>n c. n * 10 + digit_val c) ?n1 s"
  have d: "0 \<le> digit_val c" "digit_val c \<le> 9" "is_digit c"
    using is_digit_val [of c] Cons.prems by simp_all
  have mono: "?n1 \<le> ?v"
    using Cons.prems d by (intro foldl_dec_mono) simp_all
  show ?case
  proof (cases "maxUint64 div 10 + 1 \<le> n")
    case True
    then have "maxUint64 < ?n1" using d by (simp add: maxUint64_def)
    with mono True d show ?thesis by (simp add: Let_def)
  next
    case False
    show ?thesis
    proof (cases "maxUint64 < ?n1")
      case True
      with mono False d show ?thesis by (simp add: Let_def)
    next
      case False2: False
      then have "ParseUint_loop ?n1 s = (if ?v \<le> maxUint64 then (?v, None) else (maxUint64, Some ErrRange))"
        using Cons.prems d Cons.IH [of ?n1] by (simp add: Let_def)
      with False False2 d show ?thesis by (simp add: Let_def)
    qed
  qed
qed

lemma ParseUint_digits:
  "digits s \<Longrightarrow>
     ParseUint s = (if dec_val s \<le> maxUint64 then (dec_val s, None) else (maxUint64, Some ErrRange))"
  using ParseUint_loop_digits [of s 0]
  by (simp add: digits_def ParseUint_def dec_val_def maxUint64_def Let_def)

lemma digit_not_sign: "is_digit c \<Longrightarrow> c \<noteq> CHR ''-'' \<and> c \<noteq> CHR ''+''"
  by (auto simp: is_digit_def)

lemma ParseInt_digits:
  assumes "digits s"
  shows "ParseInt s = (if dec_val s \<le> maxInt then (dec_val s, None) else (maxInt, Some ErrRange))"
proof -
  from assms obtain c cs where s: "s = c # cs" and c: "is_digit c"
    by (cases s) (auto simp: digits_def)
  have hd: "hd s \<noteq> CHR ''-''" "hd s \<noteq> CHR ''+''"
    using digit_not_sign [OF c] s by simp_all
  have nn: "0 \<le> dec_val s"
    using assms by (simp add: digits_def dec_val_nonneg)
  show ?thesis
    using assms hd nn ParseUint_digits [OF assms]
    by (auto simp: ParseInt_def Let_def maxInt_def maxUint64_def digits_def)
qed

lemma sint_word_of_int_64:
  "- (2 ^ 63) \<le> i \<Longrightarrow> i < 2 ^ 63 \<Longrightarrow> sint (word_of_int i :: go_int) = i"
  by (simp add: sint_sbintrunc' signed_take_bit_int_eq_self)

lemma Atoi_digits:
  assumes "digits s"
  shows "sint (fst (Atoi s)) = min (dec_val s) maxInt"
    and "snd (Atoi s) = (if dec_val s \<le> maxInt then None else Some ErrRange)"
proof -
  have nn: "0 \<le> dec_val s"
    using assms by (simp add: digits_def dec_val_nonneg)
  show "sint (fst (Atoi s)) = min (dec_val s) maxInt"
    using nn by (auto simp: Atoi_def ParseInt_digits [OF assms] maxInt_def sint_word_of_int_64)
  show "snd (Atoi s) = (if dec_val s \<le> maxInt then None else Some ErrRange)"
    by (simp add: Atoi_def ParseInt_digits [OF assms])
qed

lemma is_digit_digit_char: "0 \<le> d \<Longrightarrow> d \<le> 9 \<Longrightarrow> is_digit (digit_char d)"
  by (simp add: is_digit_def digit_char_def)

lemma digit_val_digit_char: "0 \<le> d \<Longrightarrow> d \<le> 9 \<Longrightarrow> digit_val (digit_char d) = d"
  by (simp add: digit_val_def digit_char_def)

lemma nat_dec_digits: "0 \<le> n \<Longrightarrow> digits (nat_dec n)"
proof (induction n rule: nat_dec.induct)
  case (1 n)
  show ?case
  proof (cases "n < 10")
    case True
    with "1.prems" show ?thesis
      by (subst nat_dec.simps) (simp add: digits_def is_digit_digit_char)
  next
    case False
    then have "digits (nat_dec (n div 10))" using "1.IH" by simp
    moreover have "is_digit (digit_char (n mod 10))"
      by (rule is_digit_digit_char) simp_all
    ultimately show ?thesis using False
      by (subst nat_dec.simps) (simp add: digits_def)
  qed
qed

lemma dec_val_nat_dec: "0 \<le> n \<Longrightarrow> dec_val (nat_dec n) = n"
proof (induction n rule: nat_dec.induct)
  case (1 n)
  show ?case
  proof (cases "n < 10")
    case True
    with "1.prems" show ?thesis
      by (subst nat_dec.simps) (simp add: dec_val_def digit_val_digit_char)
  next
    case False
    then have "dec_val (nat_dec (n div 10)) = n div 10" using "1.IH" by simp
    moreover have "digit_val (digit_char (n mod 10)) = n mod 10"
      by (rule digit_val_digit_char) simp_all
    ultimately show ?thesis using False
      by (subst nat_dec.simps) (simp add: dec_val_snoc)
  qed
qed

lemma digits_no_dash: "digits s \<Longrightarrow> CHR ''-'' \<notin> set s"
  using digit_not_sign by (auto simp: digits_def)

lemma split_acc_no_sep: "sep \<notin> set a \<Longrightarrow> split_acc sep cur a = [rev cur @ a]"
  by (induction a arbitrary: cur) auto

lemma split_acc_first:
  "sep \<notin> set a \<Longrightarrow> split_acc sep cur (a @ sep # b) = (rev cur @ a) # split_acc sep [] b"
  by (induction a arbitrary: cur) auto

lemma Split_two:
  "sep \<notin> set a \<Longrightarrow> sep \<notin> set b \<Longrightarrow> Split (a @ sep # b) sep = [a, b]"
  by (simp add: Split_def split_acc_first split_acc_no_sep)

lemma TrimSuffix_snoc: "TrimSuffix (a @ [c]) [c] = a"
  by (simp add: TrimSuffix_def HasSuffix_def)

lemma TrimPrefix_cons: "TrimPrefix (c # b) [c] = b"
  by (simp add: TrimPrefix_def HasPrefix_def)

section \<open>The qualifier matcher on each form of qualifier\<close>

lemma index_two: "index [a, b] 0 = Some a" "index [a, b] (Suc 0) = Some b"
  by (simp_all add: index_def)

lemma not_digits_with_dash: "\<not> digits (a @ CHR ''-'' # b)"
  using digits_no_dash [of "a @ CHR ''-'' # b"] by auto

lemma CommonPodQualifier_range_form:
  assumes "digits a" and "digits b"
  shows "CommonPodQualifier ordinal (a @ CHR ''-'' # b) =
           Some (min (dec_val a) maxInt \<le> sint ordinal \<and> sint ordinal \<le> min (dec_val b) maxInt)"
proof -
  have m: "MatchString rangeRegex (a @ CHR ''-'' # b)"
    using assms by (auto simp: rangeRegex_iff)
  have sp: "Split (a @ CHR ''-'' # b) (CHR ''-'') = [a, b]"
    using assms by (simp add: Split_two digits_no_dash)
  show ?thesis
    using m by (simp add: CommonPodQualifier_def sp index_two Atoi_digits [OF assms(1)] Atoi_digits [OF assms(2)])
qed

lemma CommonPodQualifier_exact_form:
  assumes "digits s"
  shows "CommonPodQualifier ordinal s = Some (sint ordinal = min (dec_val s) maxInt)"
proof -
  have ne: "s \<noteq> []" using assms by (simp add: digits_def)
  have nr: "\<not> MatchString rangeRegex s"
    using assms not_digits_with_dash by (auto simp: rangeRegex_iff)
  have ex: "MatchString exactNumberRegex s"
    using assms by (simp add: exactNumberRegex_iff)
  have "ordinal = fst (Atoi s) \<longleftrightarrow> sint ordinal = sint (fst (Atoi s))"
    by (rule word_eq_iff_signed)
  then show ?thesis
    using ne nr ex by (simp add: CommonPodQualifier_def Atoi_digits [OF assms])
qed

lemma CommonPodQualifier_lower_form:
  assumes "digits a"
  shows "CommonPodQualifier ordinal (a @ [CHR ''-'']) = Some (min (dec_val a) maxInt \<le> sint ordinal)"
proof -
  have nd: "CHR ''-'' \<notin> set a" using assms by (rule digits_no_dash)
  have ane: "a \<noteq> []" using assms by (simp add: digits_def)
  have nr: "\<not> MatchString rangeRegex (a @ [CHR ''-''])"
  proof
    assume "MatchString rangeRegex (a @ [CHR ''-''])"
    then obtain x y where xy: "a @ [CHR ''-''] = x @ CHR ''-'' # y" "digits x" "digits y"
      by (auto simp: rangeRegex_iff)
    then have "y \<noteq> []" by (simp add: digits_def)
    then have "last (x @ CHR ''-'' # y) = last y" by simp
    with xy have "last y = CHR ''-''" by (metis last_snoc)
    with \<open>y \<noteq> []\<close> have "CHR ''-'' \<in> set y" by (metis last_in_set)
    with digits_no_dash [OF xy(3)] show False by simp
  qed
  have ne: "\<not> MatchString exactNumberRegex (a @ [CHR ''-''])"
    using digits_no_dash [of "a @ [CHR ''-'']"] by (auto simp: exactNumberRegex_iff)
  have lo: "MatchString lowerBoundRegex (a @ [CHR ''-''])"
    using assms by (simp add: lowerBoundRegex_iff)
  show ?thesis
    using nr ne lo by (simp add: CommonPodQualifier_def TrimSuffix_snoc Atoi_digits [OF assms])
qed

lemma CommonPodQualifier_upper_form:
  assumes "digits b"
  shows "CommonPodQualifier ordinal (CHR ''-'' # b) = Some (sint ordinal \<le> min (dec_val b) maxInt)"
proof -
  have nd: "CHR ''-'' \<notin> set b" using assms by (rule digits_no_dash)
  have nr: "\<not> MatchString rangeRegex (CHR ''-'' # b)"
  proof
    assume "MatchString rangeRegex (CHR ''-'' # b)"
    then obtain x y where xy: "CHR ''-'' # b = x @ CHR ''-'' # y" "digits x" "digits y"
      by (auto simp: rangeRegex_iff)
    then have "x \<noteq> []" by (simp add: digits_def)
    with xy(1) have "hd x = CHR ''-''" by (cases x) simp_all
    with \<open>x \<noteq> []\<close> have "CHR ''-'' \<in> set x" by (metis hd_in_set)
    with digits_no_dash [OF xy(2)] show False by simp
  qed
  have ne: "\<not> MatchString exactNumberRegex (CHR ''-'' # b)"
    using digits_no_dash [of "CHR ''-'' # b"] by (auto simp: exactNumberRegex_iff)
  have nl: "\<not> MatchString lowerBoundRegex (CHR ''-'' # b)"
  proof
    assume "MatchString lowerBoundRegex (CHR ''-'' # b)"
    then obtain x where x: "CHR ''-'' # b = x @ [CHR ''-'']" "digits x"
      by (auto simp: lowerBoundRegex_iff)
    then have "x \<noteq> []" by (simp add: digits_def)
    with x(1) have "hd x = CHR ''-''" by (cases x) simp_all
    with \<open>x \<noteq> []\<close> have "CHR ''-'' \<in> set x" by (metis hd_in_set)
    with digits_no_dash [OF x(2)] show False by simp
  qed
  have up: "MatchString upperBoundRegex (CHR ''-'' # b)"
    using assms by (simp add: upperBoundRegex_iff)
  show ?thesis
    using nr ne nl up by (simp add: CommonPodQualifier_def TrimPrefix_cons Atoi_digits [OF assms])
qed

lemma CommonPodQualifier_other_form:
  assumes "q \<noteq> []"
    and "\<not> MatchString rangeRegex q" and "\<not> MatchString exactNumberRegex q"
    and "\<not> MatchString lowerBoundRegex q" and "\<not> MatchString upperBoundRegex q"
  shows "CommonPodQualifier ordinal q = Some False"
  using assms by (simp add: CommonPodQualifier_def)

lemma CommonPodQualifier_total: "\<exists>r. CommonPodQualifier ordinal q = Some r"
proof (cases "MatchString rangeRegex q")
  case True
  then obtain a b where "q = a @ CHR ''-'' # b" "digits a" "digits b"
    by (auto simp: rangeRegex_iff)
  then show ?thesis by (simp add: CommonPodQualifier_range_form)
next
  case False
  then show ?thesis by (auto simp: CommonPodQualifier_def Let_def)
qed

lemma int_dec_nonneg: "0 \<le> n \<Longrightarrow> digits (int_dec n) \<and> dec_val (int_dec n) = n"
  by (simp add: int_dec_def nat_dec_digits dec_val_nat_dec)

lemma sint_le_maxInt: "sint (w :: go_int) \<le> maxInt"
  using sint_lt [of w] by (simp add: maxInt_def)

section \<open>Claims about the qualifier matcher\<close>

text \<open>
  C1, as amended. For every ordinal and all non-negative integers \<open>a\<close> and \<open>b\<close>, the
  matcher on the qualifier \<open>a-b\<close> returns a result, never an error. Unless the ordinal
  is \<open>2 ^ 63 - 1\<close>, \<open>a\<close> is above \<open>2 ^ 63 - 1\<close> and \<open>b\<close> is at least \<open>2 ^ 63 - 1\<close>, the result is
  true if and only if \<open>a \<le> ordinal \<le> b\<close>, so that it is false when \<open>b < a\<close>. In the excepted
  case the result is true.
\<close>

theorem CommonPodQualifier_range:
  assumes "0 \<le> a" and "0 \<le> b"
  shows "(\<not> (sint ordinal = maxInt \<and> maxInt < a \<and> maxInt \<le> b) \<longrightarrow>
            CommonPodQualifier ordinal (int_dec a @ ''-'' @ int_dec b)
              = Some (a \<le> sint ordinal \<and> sint ordinal \<le> b)
            \<and> (b < a \<longrightarrow> CommonPodQualifier ordinal (int_dec a @ ''-'' @ int_dec b) = Some False))
         \<and> (sint ordinal = maxInt \<and> maxInt < a \<and> maxInt \<le> b \<longrightarrow>
              CommonPodQualifier ordinal (int_dec a @ ''-'' @ int_dec b) = Some True)"
proof -
  have da: "digits (int_dec a)" "dec_val (int_dec a) = a"
    using assms(1) by (simp_all add: int_dec_nonneg)
  have db: "digits (int_dec b)" "dec_val (int_dec b) = b"
    using assms(2) by (simp_all add: int_dec_nonneg)
  have r: "CommonPodQualifier ordinal (int_dec a @ ''-'' @ int_dec b)
          = Some (min a maxInt \<le> sint ordinal \<and> sint ordinal \<le> min b maxInt)"
    using CommonPodQualifier_range_form [OF da(1) db(1), of ordinal] by (simp add: da db)
  have le: "sint ordinal \<le> maxInt" by (rule sint_le_maxInt)
  have u: "sint ordinal \<le> min b maxInt \<longleftrightarrow> sint ordinal \<le> b"
    using le by auto
  have l: "min a maxInt \<le> sint ordinal \<longleftrightarrow> a \<le> sint ordinal"
    if "\<not> (sint ordinal = maxInt \<and> maxInt < a \<and> maxInt \<le> b)" "sint ordinal \<le> b"
    using that le by auto
  have n: "(min a maxInt \<le> sint ordinal \<and> sint ordinal \<le> min b maxInt)
             \<longleftrightarrow> (a \<le> sint ordinal \<and> sint ordinal \<le> b)"
    if "\<not> (sint ordinal = maxInt \<and> maxInt < a \<and> maxInt \<le> b)"
    using l [OF that] u by auto
  have e: "min a maxInt \<le> sint ordinal \<and> sint ordinal \<le> min b maxInt"
    if "sint ordinal = maxInt \<and> maxInt < a \<and> maxInt \<le> b"
    using that by auto
  show ?thesis
    unfolding r using n e by auto
qed

theorem CommonPodQualifier_range_witness:
  "CommonPodQualifier 3 ''1-5'' = Some True
   \<and> CommonPodQualifier 3 ''5-1'' = Some False
   \<and> CommonPodQualifier 9223372036854775807 ''9223372036854775808-9223372036854775809'' = Some True"
proof -
  have d: "int_dec 1 = ''1''" "int_dec 5 = ''5''"
    by code_simp+
  have n3: "\<not> (sint (3 :: go_int) = maxInt \<and> maxInt < 1 \<and> maxInt \<le> 5)"
    "\<not> (sint (3 :: go_int) = maxInt \<and> maxInt < 5 \<and> maxInt \<le> 1)"
    by (simp_all add: maxInt_def)
  have p: "(0::int) \<le> 1" "(0::int) \<le> 5" by simp_all
  have w1: "CommonPodQualifier 3 ''1-5'' = Some True"
    using CommonPodQualifier_range [OF p(1) p(2), of 3] n3(1) d by simp
  have w2: "CommonPodQualifier 3 ''5-1'' = Some False"
    using CommonPodQualifier_range [OF p(2) p(1), of 3] n3(2) d by simp
  have a0: "(0::int) \<le> 9223372036854775808" "(0::int) \<le> 9223372036854775809" by simp_all
  have e: "sint (9223372036854775807 :: go_int) = maxInt \<and> maxInt < 9223372036854775808
             \<and> maxInt \<le> 9223372036854775809"
    by (simp add: maxInt_def)
  have s: "int_dec 9223372036854775808 @ ''-'' @ int_dec 9223372036854775809
             = ''9223372036854775808-9223372036854775809''"
    by code_simp
  note T = CommonPodQualifier_range [OF a0, of 9223372036854775807, THEN conjunct2, rule_format, OF e]
  have w3: "CommonPodQualifier 9223372036854775807 ''9223372036854775808-9223372036854775809'' = Some True"
    using T unfolding s .
  from w1 w2 w3 show ?thesis by (intro conjI)
qed

text \<open>
  C1 as stated fails in the excepted case: \<open>Atoi\<close> returns \<open>2 ^ 63 - 1\<close> for a bound beyond
  the range of \<open>int\<close> and the error is dropped, so the ordinal \<open>2 ^ 63 - 1\<close> is matched by
  the range from \<open>2 ^ 63\<close> to \<open>2 ^ 63 + 1\<close>, which does not contain it.
\<close>

theorem CommonPodQualifier_range_counterexample:
  "(0::int) \<le> sint (9223372036854775807 :: go_int)
   \<and> (0::int) \<le> 9223372036854775808 \<and> (9223372036854775808::int) \<le> 9223372036854775809
   \<and> int_dec 9223372036854775808 @ ''-'' @ int_dec 9223372036854775809
        = ''9223372036854775808-9223372036854775809''
   \<and> CommonPodQualifier 9223372036854775807 ''9223372036854775808-9223372036854775809'' = Some True
   \<and> \<not> (9223372036854775808 \<le> sint (9223372036854775807 :: go_int)
        \<and> sint (9223372036854775807 :: go_int) \<le> 9223372036854775809)"
  by code_simp

text \<open>
  C2, as amended. For every ordinal \<open>o \<ge> 0\<close> the matcher returns true on the empty
  qualifier and on the decimal string of \<open>o\<close>, and it returns false on the decimal string
  of \<open>o + 1\<close> as long as \<open>o + 1\<close> is an \<open>int\<close>, that is for \<open>o < 2 ^ 63 - 1\<close>.
\<close>

theorem CommonPodQualifier_exact:
  assumes "0 \<le> sint ordinal"
  shows "CommonPodQualifier ordinal [] = Some True
         \<and> CommonPodQualifier ordinal (Itoa ordinal) = Some True
         \<and> (sint ordinal < maxInt \<longrightarrow>
              CommonPodQualifier ordinal (int_dec (sint ordinal + 1)) = Some False)"
proof -
  have e: "CommonPodQualifier ordinal [] = Some True"
    by (simp add: CommonPodQualifier_def)
  have d: "digits (Itoa ordinal)" "dec_val (Itoa ordinal) = sint ordinal"
    using assms by (simp_all add: Itoa_def int_dec_nonneg)
  have s: "CommonPodQualifier ordinal (Itoa ordinal) = Some True"
    using CommonPodQualifier_exact_form [OF d(1), of ordinal] sint_le_maxInt [of ordinal]
    by (simp add: d)
  have n: "CommonPodQualifier ordinal (int_dec (sint ordinal + 1)) = Some False"
    if "sint ordinal < maxInt"
  proof -
    have d1: "digits (int_dec (sint ordinal + 1))" "dec_val (int_dec (sint ordinal + 1)) = sint ordinal + 1"
      using assms by (simp_all add: int_dec_nonneg)
    show ?thesis
      using CommonPodQualifier_exact_form [OF d1(1), of ordinal] that
      by (simp add: d1)
  qed
  from e s n show ?thesis by simp
qed

theorem CommonPodQualifier_exact_witness:
  "0 \<le> sint (3 :: go_int) \<and> sint (3 :: go_int) < maxInt
   \<and> CommonPodQualifier 3 [] = Some True
   \<and> CommonPodQualifier 3 ''3'' = Some True
   \<and> CommonPodQualifier 3 ''4'' = Some False"
proof -
  have d: "Itoa 3 = ''3''" "int_dec (sint (3 :: go_int) + 1) = ''4''"
    by code_simp+
  have m: "0 \<le> sint (3 :: go_int)" "sint (3 :: go_int) < maxInt"
    by (simp_all add: maxInt_def)
  show ?thesis
    using CommonPodQualifier_exact [of 3] d m by simp
qed

text \<open>
  C2 as stated fails at the largest ordinal: the decimal string of \<open>2 ^ 63\<close> is read by
  \<open>Atoi\<close> as \<open>2 ^ 63 - 1\<close>, the error is dropped, and the matcher returns true.
\<close>

theorem CommonPodQualifier_exact_counterexample:
  "0 \<le> sint (9223372036854775807 :: go_int)
   \<and> int_dec (sint (9223372036854775807 :: go_int) + 1) = ''9223372036854775808''
   \<and> CommonPodQualifier 9223372036854775807 (int_dec (sint (9223372036854775807 :: go_int) + 1))
        = Some True"
  by code_simp

text \<open>
  C3. The matcher returns a result on every ordinal and every string (no index
  expression panics), and the result is false on every string that has none of the forms
  empty, \<open>N\<close>, \<open>N-M\<close>, \<open>N-\<close>, \<open>-M\<close>.
\<close>

theorem CommonPodQualifier_no_form:
  "(\<exists>r. CommonPodQualifier ordinal q = Some r)
   \<and> (\<not> qualifier_form q \<longrightarrow> CommonPodQualifier ordinal q = Some False)"
proof -
  have "CommonPodQualifier ordinal q = Some False" if nf: "\<not> qualifier_form q"
  proof (rule CommonPodQualifier_other_form)
    show "q \<noteq> []" using nf by (simp add: qualifier_form_def)
    show "\<not> MatchString rangeRegex q"
      using nf by (auto simp: qualifier_form_def rangeRegex_iff)
    show "\<not> MatchString exactNumberRegex q"
      using nf by (simp add: qualifier_form_def exactNumberRegex_iff)
    show "\<not> MatchString lowerBoundRegex q"
      using nf by (auto simp: qualifier_form_def lowerBoundRegex_iff)
    show "\<not> MatchString upperBoundRegex q"
      using nf by (auto simp: qualifier_form_def upperBoundRegex_iff)
  qed
  then show ?thesis using CommonPodQualifier_total [of ordinal q] by simp
qed

theorem CommonPodQualifier_no_form_witness:
  "\<not> qualifier_form ''1-2-3'' \<and> CommonPodQualifier 7 ''1-2-3'' = Some False"
proof -
  have nd: "\<not> digits ''1-2-3''"
    using digits_no_dash [of "''1-2-3''"] by auto
  have r: False if "''1-2-3'' = a @ ''-'' @ b" "digits a" "digits b" for a b
  proof -
    from that(1) have "a = ''1'' \<or> a = ''1-2''"
      by (auto simp: append_eq_Cons_conv Cons_eq_append_conv)
    with that(1) have "b = ''2-3'' \<or> a = ''1-2''" by auto
    with digits_no_dash [OF that(2)] digits_no_dash [OF that(3)] show False by auto
  qed
  have l: False if "''1-2-3'' = a @ ''-''" for a
    using that by (auto simp: append_eq_Cons_conv Cons_eq_append_conv)
  have u: False if "''1-2-3'' = ''-'' @ b" for b
    using that by simp
  have "\<not> qualifier_form ''1-2-3''"
    unfolding qualifier_form_def using nd r l u by blast
  then show ?thesis
    using CommonPodQualifier_no_form [of 7 "''1-2-3''"] by simp
qed

section \<open>The annotation collector\<close>

lemma take1_drop: "take (Suc 0) (drop i s) = [c] \<longleftrightarrow> i < length s \<and> s ! i = c"
proof (cases "i < length s")
  case True
  then have "drop i s = s ! i # drop (Suc i) s" by (simp add: Cons_nth_drop_Suc)
  with True show ?thesis by simp
next
  case False
  then show ?thesis by simp
qed

lemma LastIndex_absent: "c \<notin> set s \<Longrightarrow> LastIndex s [c] = - 1"
proof -
  assume a: "c \<notin> set s"
  have "filter (\<lambda>i. take (Suc 0) (drop i s) = [c]) (rev [0 ..< Suc (length s)]) = []"
  proof -
    have "\<not> (i < length s \<and> s ! i = c)" for i
      using a by (metis nth_mem)
    then show ?thesis by (auto simp del: upt_Suc simp: filter_empty_conv take1_drop)
  qed
  then show ?thesis by (simp add: LastIndex_def del: upt_Suc)
qed

lemma LastIndex_last:
  assumes "c \<notin> set q"
  shows "LastIndex (f @ c # q) [c] = int (length f)"
proof -
  let ?s = "f @ c # q"
  let ?P = "\<lambda>i. take (Suc 0) (drop i ?s) = [c]"
  have P: "?P i \<longleftrightarrow> i < length ?s \<and> ?s ! i = c" for i
    by (rule take1_drop)
  have upt: "[0 ..< Suc (length ?s)] = [0 ..< length f] @ [length f] @ [Suc (length f) ..< Suc (length ?s)]"
  proof -
    have "[0 ..< Suc (length ?s)] = [0 ..< Suc (length f)] @ [Suc (length f) ..< Suc (length ?s)]"
      using upt_add_eq_append [of 0 "Suc (length f)" "Suc (length q)"] by simp
    then show ?thesis by simp
  qed
  have after: "filter ?P [Suc (length f) ..< Suc (length ?s)] = []"
  proof -
    have "\<not> ?P i" if "Suc (length f) \<le> i" for i
    proof
      assume "?P i"
      with P [of i] have i: "i < length ?s" "?s ! i = c" by blast+
      from that have "?s ! i = q ! (i - Suc (length f))"
        by (simp add: nth_append nth_Cons')
      moreover from that i(1) have "i - Suc (length f) < length q" by simp
      ultimately have "c \<in> set q" using i(2) by (metis nth_mem)
      with assms show False by simp
    qed
    then show ?thesis by (auto simp: filter_empty_conv simp del: upt_Suc)
  qed
  have here: "?P (length f)" unfolding P by simp
  have "filter ?P (rev [0 ..< Suc (length ?s)]) = length f # rev (filter ?P [0 ..< length f])"
    unfolding upt rev_append filter_append rev_filter [symmetric] using after here
    by (simp del: upt_Suc add: rev_filter)
  then show ?thesis
    unfolding LastIndex_def by (simp del: upt_Suc)
qed

lemma split_at_last_exists:
  "c \<in> set s \<Longrightarrow> \<exists>f q. s = f @ c # q \<and> c \<notin> set q"
  by (rule split_list_last)

lemma split_at_last_unique:
  assumes "f @ c # q = f' @ (c :: char) # q'" and "c \<notin> set q" and "c \<notin> set q'"
  shows "f = f' \<and> q = q'"
proof -
  have "int (length f) = int (length f')"
    using LastIndex_last [OF assms(2), of f] LastIndex_last [OF assms(3), of f'] assms(1) by simp
  then have "length f = length f'" by simp
  with assms(1) show ?thesis by simp
qed

lemma HasPrefix_iff: "HasPrefix k p \<longleftrightarrow> (\<exists>r. k = p @ r)"
proof
  assume "HasPrefix k p"
  then have "k = p @ drop (length p) k"
    by (metis HasPrefix_def append_take_drop_id)
  then show "\<exists>r. k = p @ r" ..
next
  assume "\<exists>r. k = p @ r"
  then show "HasPrefix k p" by (auto simp: HasPrefix_def)
qed

lemma TrimPrefix_append: "TrimPrefix (p @ r) p = r"
  by (simp add: TrimPrefix_def HasPrefix_def)

lemma nat_int_Suc: "nat (int n + 1) = Suc n"
  by simp

lemma collected_name_no_sep:
  "CHR ''_'' \<notin> set r \<Longrightarrow> collected_name (Prefix @ r) = \<lparr>Qualifier = [], Name = r\<rparr>"
  by (simp add: collected_name_def TrimPrefix_append Separator_def LastIndex_absent)

lemma collected_name_sep:
  "CHR ''_'' \<notin> set q \<Longrightarrow> collected_name (Prefix @ f @ CHR ''_'' # q) = \<lparr>Qualifier = q, Name = f\<rparr>"
  by (simp add: collected_name_def TrimPrefix_append Separator_def LastIndex_last nat_int_Suc)

lemma collected_name_splits: "splits_at_last r qn \<longleftrightarrow> qn = collected_name (Prefix @ r)"
proof (cases "CHR ''_'' \<in> set r")
  case False
  then have "splits_at_last r qn \<longleftrightarrow> Name qn = r \<and> Qualifier qn = []"
    by (simp add: splits_at_last_def)
  also have "\<dots> \<longleftrightarrow> qn = \<lparr>Qualifier = [], Name = r\<rparr>"
    by (cases qn) auto
  finally show ?thesis using False by (simp add: collected_name_no_sep)
next
  case True
  from split_at_last_exists [OF True]
  obtain f q where fq: "r = f @ CHR ''_'' # q" "CHR ''_'' \<notin> set q"
    by auto
  have cn: "collected_name (Prefix @ r) = \<lparr>Qualifier = q, Name = f\<rparr>"
    unfolding fq(1) using fq(2) by (rule collected_name_sep)
  show ?thesis
  proof
    assume "splits_at_last r qn"
    with True have s: "r = Name qn @ CHR ''_'' # Qualifier qn" "CHR ''_'' \<notin> set (Qualifier qn)"
      by (simp_all add: splits_at_last_def)
    have "Name qn @ CHR ''_'' # Qualifier qn = f @ CHR ''_'' # q"
      using s(1) fq(1) by simp
    then have "Name qn = f \<and> Qualifier qn = q"
      using s(2) fq(2) by (rule split_at_last_unique)
    then have "qn = \<lparr>Qualifier = q, Name = f\<rparr>" by (cases qn) simp
    with cn show "qn = collected_name (Prefix @ r)" by simp
  next
    assume "qn = collected_name (Prefix @ r)"
    with cn have "Name qn = f" "Qualifier qn = q" by simp_all
    with True fq show "splits_at_last r qn"
      by (simp add: splits_at_last_def)
  qed
qed

lemma parsed_key_iff: "parsed_key k qn \<longleftrightarrow> HasPrefix k Prefix \<and> qn = collected_name k"
  by (auto simp: parsed_key_def HasPrefix_iff collected_name_splits)

lemma collect_entry_eq:
  "collect_entry (k, v) result =
     Some (if HasPrefix k Prefix then AList.update (collected_name k) v result else result)"
proof (cases "HasPrefix k Prefix")
  case False
  then show ?thesis by (simp add: collect_entry_def)
next
  case True
  then obtain r where r: "k = Prefix @ r" by (auto simp: HasPrefix_iff)
  show ?thesis
  proof (cases "CHR ''_'' \<in> set r")
    case False
    then have "LastIndex r ''_'' = - 1" by (rule LastIndex_absent)
    with True show ?thesis
      unfolding r
      by (simp add: collect_entry_def collected_name_def TrimPrefix_append Separator_def)
  next
    case in_r: True
    from split_at_last_exists [OF in_r]
    obtain f q where fq: "r = f @ CHR ''_'' # q" "CHR ''_'' \<notin> set q"
      by auto
    have li: "LastIndex (f @ CHR ''_'' # q) ''_'' = int (length f)"
      using fq(2) by (rule LastIndex_last)
    have pre: "HasPrefix (Prefix @ f @ CHR ''_'' # q) Prefix"
      by (simp add: HasPrefix_iff)
    show ?thesis
      unfolding r fq(1)
      by (simp add: collect_entry_def collected_name_def TrimPrefix_append Separator_def
          slice_from_def slice_to_def li pre nat_int_Suc)
  qed
qed

lemma collect_loop_eq: "collect_loop annotations result = Some (foldl collect_step result annotations)"
proof (induction annotations arbitrary: result)
  case Nil
  show ?case by simp
next
  case (Cons kv rest)
  obtain k v where kv: "kv = (k, v)" by (cases kv)
  show ?case
    unfolding kv using Cons.IH by (simp add: collect_entry_eq collect_step_def)
qed

lemma collect_step_distinct:
  "distinct (map fst result) \<Longrightarrow> distinct (map fst (collect_step result kv))"
  by (simp add: collect_step_def distinct_update)

lemma collect_fold_distinct:
  "distinct (map fst result) \<Longrightarrow> distinct (map fst (foldl collect_step result annotations))"
  by (induction annotations arbitrary: result) (simp_all add: collect_step_distinct)

lemma collect_step_map_of:
  "map_of (collect_step result (k, v)) qn =
     (if HasPrefix k Prefix \<and> collected_name k = qn then Some v else map_of result qn)"
  by (simp add: collect_step_def update_conv')

lemma collect_fold_value:
  "map_of (foldl collect_step result annotations) qn = Some v \<Longrightarrow>
     map_of result qn = Some v
     \<or> (\<exists>k. (k, v) \<in> set annotations \<and> HasPrefix k Prefix \<and> collected_name k = qn)"
proof (induction annotations arbitrary: v rule: rev_induct)
  case Nil
  then show ?case by simp
next
  case (snoc kv annotations)
  obtain k' v' where kv: "kv = (k', v')" by (cases kv)
  show ?case
  proof (cases "HasPrefix k' Prefix \<and> collected_name k' = qn")
    case True
    with snoc.prems have "v = v'" by (simp add: kv collect_step_map_of)
    with True show ?thesis by (auto simp: kv)
  next
    case False
    with snoc.prems have "map_of (foldl collect_step result annotations) qn = Some v"
      by (simp add: kv collect_step_map_of)
    then show ?thesis using snoc.IH by auto
  qed
qed

lemma collect_fold_dom:
  "qn \<in> dom (map_of (foldl collect_step result annotations)) \<longleftrightarrow>
     qn \<in> dom (map_of result)
     \<or> (\<exists>k \<in> fst ` set annotations. HasPrefix k Prefix \<and> collected_name k = qn)"
proof (induction annotations rule: rev_induct)
  case Nil
  show ?case by simp
next
  case (snoc kv annotations)
  obtain k' v' where kv: "kv = (k', v')" by (cases kv)
  have "qn \<in> dom (map_of (foldl collect_step result (annotations @ [kv]))) \<longleftrightarrow>
          (HasPrefix k' Prefix \<and> collected_name k' = qn)
          \<or> qn \<in> dom (map_of (foldl collect_step result annotations))"
    by (auto simp: kv collect_step_map_of dom_def)
  then show ?case using snoc.IH by (auto simp: kv)
qed

lemma collect_fold_present:
  assumes "distinct (map fst annotations)"
    and "\<forall>k \<in> fst ` set annotations. \<forall>k' \<in> fst ` set annotations.
           HasPrefix k Prefix \<and> HasPrefix k' Prefix \<and> collected_name k = collected_name k' \<longrightarrow> k = k'"
    and "(k, v) \<in> set annotations" and "HasPrefix k Prefix"
  shows "map_of (foldl collect_step result annotations) (collected_name k) = Some v"
  using assms
proof (induction annotations rule: rev_induct)
  case Nil
  then show ?case by simp
next
  case (snoc kv annotations)
  obtain k' v' where kv: "kv = (k', v')" by (cases kv)
  show ?case
  proof (cases "(k, v) = (k', v')")
    case True
    with snoc.prems(4) show ?thesis by (simp add: kv collect_step_map_of)
  next
    case False
    with snoc.prems(3) have mem: "(k, v) \<in> set annotations" by (auto simp: kv)
    then have kin: "k \<in> fst ` set annotations" by force
    have d: "distinct (map fst annotations)" "k' \<notin> fst ` set annotations"
      using snoc.prems(1) by (simp_all add: kv)
    with kin have ne: "k \<noteq> k'" by auto
    have inj: "\<forall>k \<in> fst ` set annotations. \<forall>k' \<in> fst ` set annotations.
           HasPrefix k Prefix \<and> HasPrefix k' Prefix \<and> collected_name k = collected_name k' \<longrightarrow> k = k'"
      using snoc.prems(2) by simp
    have ih: "map_of (foldl collect_step result annotations) (collected_name k) = Some v"
      using snoc.IH [OF d(1) inj mem snoc.prems(4)] .
    have "\<not> (HasPrefix k' Prefix \<and> collected_name k' = collected_name k)"
    proof
      assume a: "HasPrefix k' Prefix \<and> collected_name k' = collected_name k"
      have "k \<in> fst ` set (annotations @ [kv])" "k' \<in> fst ` set (annotations @ [kv])"
        using kin by (simp_all add: kv)
      with snoc.prems(2) a snoc.prems(4) have "k = k'" by metis
      with ne show False by simp
    qed
    with ih show ?thesis by (auto simp: kv collect_step_map_of)
  qed
qed

section \<open>Claim about the annotation collector\<close>

text \<open>
  C7, as amended. For every annotation map, whatever the order in which the range loop
  visits it, the collector returns a map and never fails. The keys of the result are
  exactly the parsed names of the annotation keys that start with \<open>spoditor.io/\<close>, where
  the parsed name splits the rest of the key at the last separator \<open>_\<close>; every value of
  the result is the value of an annotation with that parsed name; and when no two
  annotations have the same parsed name, every annotation with the prefix is returned
  under its parsed name with its own value.
\<close>

theorem defaultCollector_entries:
  assumes "distinct (map fst annotations)"
  shows "\<exists>result. defaultCollector annotations = Some result
           \<and> distinct (map fst result)
           \<and> dom (map_of result) = {qn. \<exists>k \<in> fst ` set annotations. parsed_key k qn}
           \<and> (\<forall>qn v. map_of result qn = Some v \<longrightarrow>
                 (\<exists>k. (k, v) \<in> set annotations \<and> parsed_key k qn))
           \<and> (no_clash annotations \<longrightarrow>
                 (\<forall>k v qn. (k, v) \<in> set annotations \<and> parsed_key k qn \<longrightarrow> map_of result qn = Some v))"
proof -
  let ?result = "foldl collect_step [] annotations"
  have run: "defaultCollector annotations = Some ?result"
    by (simp add: defaultCollector_def collect_loop_eq)
  have dist: "distinct (map fst ?result)"
    by (rule collect_fold_distinct) simp
  have dom: "dom (map_of ?result) = {qn. \<exists>k \<in> fst ` set annotations. parsed_key k qn}"
  proof (rule set_eqI)
    fix qn
    show "qn \<in> dom (map_of ?result) \<longleftrightarrow> qn \<in> {qn. \<exists>k \<in> fst ` set annotations. parsed_key k qn}"
      using collect_fold_dom [of qn "[]" annotations] by (auto simp: parsed_key_iff)
  qed
  have val: "\<exists>k. (k, v) \<in> set annotations \<and> parsed_key k qn" if "map_of ?result qn = Some v" for qn v
    using collect_fold_value [OF that] by (auto simp: parsed_key_iff)
  have pres: "map_of ?result qn = Some v"
    if nc: "no_clash annotations" and mem: "(k, v) \<in> set annotations" and pk: "parsed_key k qn"
    for k v qn
  proof -
    have inj: "\<forall>k \<in> fst ` set annotations. \<forall>k' \<in> fst ` set annotations.
           HasPrefix k Prefix \<and> HasPrefix k' Prefix \<and> collected_name k = collected_name k' \<longrightarrow> k = k'"
    proof (intro ballI impI)
      fix k k'
      assume k: "k \<in> fst ` set annotations" and k': "k' \<in> fst ` set annotations"
        and h: "HasPrefix k Prefix \<and> HasPrefix k' Prefix \<and> collected_name k = collected_name k'"
      then have "parsed_key k (collected_name k)" "parsed_key k' (collected_name k)"
        by (simp_all add: parsed_key_iff)
      with nc k k' show "k = k'" unfolding no_clash_def by metis
    qed
    from pk have "HasPrefix k Prefix" "qn = collected_name k" by (simp_all add: parsed_key_iff)
    with collect_fold_present [OF assms inj mem, of "[]"] show ?thesis by simp
  qed
  from run dist dom val pres show ?thesis by blast
qed

theorem defaultCollector_entries_witness:
  "distinct (map fst [(''spoditor.io/host-port_1-2'', ''v''), (''app'', ''w'')])
   \<and> no_clash [(''spoditor.io/host-port_1-2'', ''v''), (''app'', ''w'')]
   \<and> parsed_key ''spoditor.io/host-port_1-2'' \<lparr>Qualifier = ''1-2'', Name = ''host-port''\<rparr>
   \<and> (\<exists>result. defaultCollector [(''spoditor.io/host-port_1-2'', ''v''), (''app'', ''w'')] = Some result
         \<and> map_of result \<lparr>Qualifier = ''1-2'', Name = ''host-port''\<rparr> = Some ''v'')"
proof -
  let ?anns = "[(''spoditor.io/host-port_1-2'', ''v''), (''app'', ''w'')]"
  have d: "distinct (map fst ?anns)" by simp
  have np: "\<not> HasPrefix ''app'' Prefix" by (simp add: HasPrefix_def Prefix_def)
  have nc: "no_clash ?anns"
    unfolding no_clash_def
  proof (intro allI impI)
    fix k k' qn
    assume a: "k \<in> fst ` set ?anns \<and> k' \<in> fst ` set ?anns \<and> parsed_key k qn \<and> parsed_key k' qn"
    then have p: "HasPrefix k Prefix" "HasPrefix k' Prefix"
      by (simp_all add: parsed_key_iff)
    from a have m: "k = ''spoditor.io/host-port_1-2'' \<or> k = ''app''"
      "k' = ''spoditor.io/host-port_1-2'' \<or> k' = ''app''"
      by simp_all
    have "k \<noteq> ''app''"
    proof
      assume "k = ''app''"
      with p(1) np show False by simp
    qed
    moreover have "k' \<noteq> ''app''"
    proof
      assume "k' = ''app''"
      with p(2) np show False by simp
    qed
    ultimately show "k = k'" using m by simp
  qed
  have pk: "parsed_key ''spoditor.io/host-port_1-2'' \<lparr>Qualifier = ''1-2'', Name = ''host-port''\<rparr>"
  proof (subst parsed_key_iff, rule conjI)
    show "HasPrefix ''spoditor.io/host-port_1-2'' Prefix"
      by code_simp
    have "collected_name ''spoditor.io/host-port_1-2'' = \<lparr>Qualifier = ''1-2'', Name = ''host-port''\<rparr>"
      by code_simp
    then show "\<lparr>Qualifier = ''1-2'', Name = ''host-port''\<rparr> = collected_name ''spoditor.io/host-port_1-2''"
      by (rule sym)
  qed
  have m: "(''spoditor.io/host-port_1-2'', ''v'') \<in> set ?anns" by simp
  from defaultCollector_entries [OF d] show ?thesis
  proof (elim exE conjE)
    fix result
    assume r: "defaultCollector ?anns = Some result"
      and p: "no_clash ?anns \<longrightarrow>
                 (\<forall>k v qn. (k, v) \<in> set ?anns \<and> parsed_key k qn \<longrightarrow> map_of result qn = Some v)"
    note q = mp [OF p nc, rule_format, OF conjI [OF m pk]]
    from d nc pk r q show ?thesis
      by (intro conjI exI [of _ result])
  qed
qed

text \<open>
  C7 as stated fails when two keys have the same parsed name, as \<open>spoditor.io/a\<close> and
  \<open>spoditor.io/a_\<close> do: of the two annotations one is returned, and which one depends on
  the order of the range loop.
\<close>

theorem defaultCollector_entries_counterexample:
  "distinct (map fst [(''spoditor.io/a'', ''1''), (''spoditor.io/a_'', ''2'')])
   \<and> defaultCollector [(''spoditor.io/a'', ''1''), (''spoditor.io/a_'', ''2'')]
       = Some [(\<lparr>Qualifier = [], Name = ''a''\<rparr>, ''2'')]
   \<and> defaultCollector [(''spoditor.io/a_'', ''2''), (''spoditor.io/a'', ''1'')]
       = Some [(\<lparr>Qualifier = [], Name = ''a''\<rparr>, ''1'')]"
  by code_simp

section \<open>The pod identity extractor\<close>

lemma filter_rev_upt_Nil: "filter P (rev [0 ..< n]) = [] \<longleftrightarrow> (\<forall>i < n. \<not> P i)"
  by (auto simp: filter_empty_conv)

lemma filter_rev_upt_Cons: "filter P (rev [0 ..< n]) = i # rest \<Longrightarrow> P i \<and> i < n"
proof -
  assume "filter P (rev [0 ..< n]) = i # rest"
  then have "i \<in> set (filter P (rev [0 ..< n]))" by simp
  then show ?thesis by simp
qed

lemma FindStringSubmatch_None:
  "FindStringSubmatch g1 c g2 s = None \<longleftrightarrow>
     \<not> (\<exists>a b. s = a @ c # b \<and> matches g1 a \<and> matches g2 b)"
proof -
  let ?P = "\<lambda>i. s ! i = c \<and> matches g1 (take i s) \<and> matches g2 (drop (Suc i) s)"
  have "FindStringSubmatch g1 c g2 s = None \<longleftrightarrow> filter ?P (rev [0 ..< length s]) = []"
    by (simp add: FindStringSubmatch_def split: list.splits)
  also have "\<dots> \<longleftrightarrow> (\<forall>i < length s. \<not> ?P i)"
    by (rule filter_rev_upt_Nil)
  also have "\<dots> \<longleftrightarrow> \<not> (\<exists>a b. s = a @ c # b \<and> matches g1 a \<and> matches g2 b)"
  proof
    assume none: "\<forall>i < length s. \<not> ?P i"
    show "\<not> (\<exists>a b. s = a @ c # b \<and> matches g1 a \<and> matches g2 b)"
    proof
      assume "\<exists>a b. s = a @ c # b \<and> matches g1 a \<and> matches g2 b"
      then obtain a b where ab: "s = a @ c # b" "matches g1 a" "matches g2 b" by auto
      then have "length a < length s" "?P (length a)" by simp_all
      with none show False by auto
    qed
  next
    assume no: "\<not> (\<exists>a b. s = a @ c # b \<and> matches g1 a \<and> matches g2 b)"
    show "\<forall>i < length s. \<not> ?P i"
    proof (intro allI impI notI)
      fix i
      assume i: "i < length s" and p: "?P i"
      from i have "s = take i s @ s ! i # drop (Suc i) s" by (rule id_take_nth_drop)
      with p have "s = take i s @ c # drop (Suc i) s" by simp
      with p no show False by auto
    qed
  qed
  finally show ?thesis .
qed

lemma FindStringSubmatch_Some:
  assumes "FindStringSubmatch g1 c g2 s = Some (w, a, b)"
  shows "w = s \<and> s = a @ c # b \<and> matches g1 a \<and> matches g2 b"
proof -
  let ?P = "\<lambda>i. s ! i = c \<and> matches g1 (take i s) \<and> matches g2 (drop (Suc i) s)"
  from assms obtain i rest where f: "filter ?P (rev [0 ..< length s]) = i # rest"
    and r: "w = s" "a = take i s" "b = drop (Suc i) s"
    by (auto simp: FindStringSubmatch_def split: list.splits)
  from filter_rev_upt_Cons [OF f] have p: "?P i" and i: "i < length s" by simp_all
  from i have "s = take i s @ s ! i # drop (Suc i) s" by (rule id_take_nth_drop)
  with p r show ?thesis by simp
qed

lemma matches_plus_dot: "matches (RPlus RDot) a \<Longrightarrow> a \<noteq> []"
  by (simp add: RDot_def matches_plus_class)

text \<open>
  The extractor of src/unnamed/part_003 meets C5 and C6: a label outside the format gives
  \<open>ErrInvalidLabelValue\<close>, and a success returns the name before the final hyphen and the
  value of the digit run after it.
\<close>

lemma LabelSSPodIdentifier_part_003_invalid:
  assumes "labels podNameLabel = Some l" and "\<not> label_format l"
  shows "LabelSSPodIdentifier_part_003 labels = ([], - 1, Some ErrInvalidLabelValue)"
proof -
  have "FindStringSubmatch (RPlus RDot) (CHR ''-'') (RPlus RDigit) l = None"
    unfolding FindStringSubmatch_None
  proof
    assume "\<exists>a b. l = a @ CHR ''-'' # b \<and> matches (RPlus RDot) a \<and> matches (RPlus RDigit) b"
    then obtain a b where "l = a @ CHR ''-'' # b" "matches (RPlus RDot) a" "matches (RPlus RDigit) b"
      by auto
    then have "l = a @ ''-'' @ b \<and> a \<noteq> [] \<and> digits b"
      by (simp add: matches_plus_dot matches_digits)
    with assms(2) show False unfolding label_format_def by auto
  qed
  with assms(1) show ?thesis by (simp add: LabelSSPodIdentifier_part_003_def)
qed

lemma LabelSSPodIdentifier_part_003_missing:
  "labels podNameLabel = None \<Longrightarrow>
     LabelSSPodIdentifier_part_003 labels = ([], - 1, Some ErrMissingLabel)"
  by (simp add: LabelSSPodIdentifier_part_003_def)

lemma LabelSSPodIdentifier_part_003_success:
  assumes "LabelSSPodIdentifier_part_003 labels = (name, ordinal, None)"
  shows "\<exists>l ds. labels podNameLabel = Some l \<and> l = name @ ''-'' @ ds \<and> name \<noteq> [] \<and> digits ds
           \<and> sint ordinal = dec_val ds \<and> 0 \<le> sint ordinal"
proof -
  from assms obtain l where l: "labels podNameLabel = Some l"
    by (auto simp: LabelSSPodIdentifier_part_003_def split: option.splits)
  with assms obtain w a ds where f: "FindStringSubmatch (RPlus RDot) (CHR ''-'') (RPlus RDigit) l = Some (w, a, ds)"
    by (auto simp: LabelSSPodIdentifier_part_003_def split: option.splits)
  from FindStringSubmatch_Some [OF f]
  have s: "l = a @ CHR ''-'' # ds" "a \<noteq> []" "digits ds"
    by (simp_all add: matches_plus_dot matches_digits)
  from assms l f have r: "name = a" "ordinal = fst (Atoi ds)" "snd (Atoi ds) = None"
    by (auto simp: LabelSSPodIdentifier_part_003_def split: prod.splits option.splits)
  from r(3) Atoi_digits(2) [OF s(3)] have le: "dec_val ds \<le> maxInt"
    by (simp split: if_splits)
  with Atoi_digits(1) [OF s(3)] r(2) have v: "sint ordinal = dec_val ds" by simp
  have "0 \<le> dec_val ds" using s(3) by (simp add: digits_def dec_val_nonneg)
  with l s r v show ?thesis by simp
qed

lemma LabelSSPodIdentifier_part_003_examples:
  "LabelSSPodIdentifier_part_003 [podNameLabel \<mapsto> ''web-3''] = (''web'', 3, None)"
  "LabelSSPodIdentifier_part_003 [podNameLabel \<mapsto> ''redis-cluster-0''] = (''redis-cluster'', 0, None)"
  "LabelSSPodIdentifier_part_003 [podNameLabel \<mapsto> ''web-x''] = ([], - 1, Some ErrInvalidLabelValue)"
  "LabelSSPodIdentifier_part_003 [podNameLabel \<mapsto> ''web-1x''] = ([], - 1, Some ErrInvalidLabelValue)"
  "LabelSSPodIdentifier_part_003 Map.empty = ([], - 1, Some ErrMissingLabel)"
  by code_simp+

lemma LabelSSPodIdentifier_part_004_examples:
  "LabelSSPodIdentifier_part_004 [podNameLabel \<mapsto> ''web-3''] = Some (''web'', 3, None)"
  "LabelSSPodIdentifier_part_004 [podNameLabel \<mapsto> ''redis-cluster-0''] = Some (''redis-cluster'', 0, None)"
  "LabelSSPodIdentifier_part_004 [podNameLabel \<mapsto> ''web-x''] = Some ([], - 1, Some ErrInvalidLabelValue)"
  "LabelSSPodIdentifier_part_004 Map.empty = Some ([], - 1, Some ErrMissingLabel)"
  by code_simp+

lemma label_format_last_hyphen:
  assumes "CHR ''-'' \<notin> set q"
  shows "label_format (f @ CHR ''-'' # q) \<longleftrightarrow> f \<noteq> [] \<and> digits q"
proof
  assume "label_format (f @ CHR ''-'' # q)"
  then obtain name ds where n: "f @ CHR ''-'' # q = name @ CHR ''-'' # ds" "name \<noteq> []" "digits ds"
    unfolding label_format_def by auto
  from n(3) have "CHR ''-'' \<notin> set ds" by (rule digits_no_dash)
  with n(1) assms have "f = name \<and> q = ds" by (rule split_at_last_unique)
  with n show "f \<noteq> [] \<and> digits q" by simp
next
  assume "f \<noteq> [] \<and> digits q"
  then show "label_format (f @ CHR ''-'' # q)"
    unfolding label_format_def by auto
qed

text \<open>
  C5 at the label value \<open>web-1x\<close>, which is outside the format, on the extractor of
  src/unnamed/part_004: the pattern \<open>.+-\d+\<close> has no anchors and finds \<open>web-1\<close> inside the
  value, \<open>Atoi\<close> fails on \<open>1x\<close> and its error is dropped, and the result is the name \<open>web\<close>
  with ordinal 0 and no error.
\<close>

theorem LabelSSPodIdentifier_part_004_accepts_web_1x:
  "\<not> label_format ''web-1x''
   \<and> LabelSSPodIdentifier_part_004 [podNameLabel \<mapsto> ''web-1x''] = Some (''web'', 0, None)"
proof (rule conjI)
  have nd: "\<not> digits ''1x''" by code_simp
  have "CHR ''-'' \<notin> set ''1x''" by simp
  from label_format_last_hyphen [OF this, of "''web''"] nd
  have "\<not> label_format (''web'' @ CHR ''-'' # ''1x'')" by simp
  then show "\<not> label_format ''web-1x''" by simp
  show "LabelSSPodIdentifier_part_004 [podNameLabel \<mapsto> ''web-1x''] = Some (''web'', 0, None)"
    by code_simp
qed

text \<open>
  C6 on the extractor of src/unnamed/part_004: on \<open>web-7x\<close> it succeeds with ordinal 0
  although the value ends in \<open>x\<close>, not in a digit run, and on a digit run beyond the range of
  \<open>int\<close> it succeeds with \<open>2 ^ 63 - 1\<close>, which is not the value of the digit run.
\<close>

theorem LabelSSPodIdentifier_part_004_ordinal_not_digit_run:
  "LabelSSPodIdentifier_part_004 [podNameLabel \<mapsto> ''web-7x''] = Some (''web'', 0, None)
   \<and> \<not> is_digit (CHR ''x'')
   \<and> LabelSSPodIdentifier_part_004 [podNameLabel \<mapsto> ''web-99999999999999999999'']
        = Some (''web'', 9223372036854775807, None)
   \<and> dec_val ''99999999999999999999'' = 99999999999999999999"
  by code_simp

section \<open>The mutation pipeline\<close>

lemma applyHandlers_loop_append:
  "applyHandlers_loop annotations ordinal i (hs1 @ hs2) spec =
     (case applyHandlers_loop annotations ordinal i hs1 spec of
        None \<Rightarrow> None
      | Some (spec', Some err) \<Rightarrow> Some (spec', Some err)
      | Some (spec', None) \<Rightarrow> applyHandlers_loop annotations ordinal (i + length hs1) hs2 spec')"
proof (induction hs1 arbitrary: i spec)
  case Nil
  show ?case by simp
next
  case (Cons h hs1)
  show ?case
    by (simp add: Cons.IH split: prod.splits option.splits config.splits)
qed

text \<open>
  \<open>applyHandlers\<close> of src/unnamed/part_005 and src/unnamed/part_006 meets C4: a handler
  whose parser returns \<open>(nil, nil)\<close> leaves the specification as it is, and the handlers
  after it run on the specification that the handlers before it have left.
\<close>

lemma applyHandlers_loop_absent:
  assumes "Parse h annotations = (NilConfig, None)"
  shows "applyHandlers_loop annotations ordinal i (hs1 @ h # hs2) spec =
     (case applyHandlers_loop annotations ordinal i hs1 spec of
        None \<Rightarrow> None
      | Some (spec', Some err) \<Rightarrow> Some (spec', Some err)
      | Some (spec', None) \<Rightarrow> applyHandlers_loop annotations ordinal (Suc (i + length hs1)) hs2 spec')"
  using assms by (simp add: applyHandlers_loop_append split: prod.splits option.splits)

lemma internal_Handle_loop_absent:
  assumes "collector r pod = Some annotations" and "Parse h annotations = (NilConfig, None)"
  shows "internal_Handle_loop r ordinal (h # rest) pod = Some (Allowed CantParseAnnotation)"
  using assms by simp

lemma test_pod_spec:
  "Spec test_pod_mutated \<noteq> Spec test_pod"
  by (simp add: test_pod_mutated_def test_pod_def)

text \<open>
  C4 on \<open>PodArgumentor.Handle\<close> of src/internal/pod_webhook.go, at the pod of the test:
  the volume handler comes first and finds no annotation of its own, its parser returns
  \<open>(nil, nil)\<close>, and \<open>Handle\<close> leaves the loop with \<open>admission.Allowed\<close>: the host-port
  handler is never reached and the response carries no patch. On the same input
  \<open>PodMutator.Default\<close> of src/unnamed/part_006 goes on to the host-port handler and
  returns the pod that the test expects.
\<close>

theorem internal_PodArgumentor_Handle_stops_at_absent:
  "collector test_pipeline test_pod = Some [(\<lparr>Qualifier = [], Name = ''host-port''\<rparr>, test_json)]
   \<and> Parse (hd (handlers test_pipeline)) [(\<lparr>Qualifier = [], Name = ''host-port''\<rparr>, test_json)]
        = (NilConfig, None)
   \<and> internal_PodArgumentor_Handle test_pipeline test_pod = Some (Allowed CantParseAnnotation)
   \<and> PodMutator_Default test_pipeline test_pod = Some (test_pod_mutated, None)
   \<and> webhook_PodArgumentor_Handle test_pipeline test_pod = Some (PatchResponseFromRaw test_pod_mutated)"
  by code_simp

section \<open>The volume handler\<close>

lemma addVolumeMounts_length: "length (addVolumeMounts source cs) = length cs"
  by (induction cs) simp_all

lemma addVolumeMounts_nth:
  "i < length cs \<Longrightarrow>
     addVolumeMounts source cs ! i =
       (if c_Name source = c_Name (cs ! i)
        then (cs ! i)\<lparr>c_VolumeMounts := c_VolumeMounts (cs ! i) @ c_VolumeMounts source\<rparr>
        else cs ! i)"
proof (induction cs arbitrary: i)
  case Nil
  then show ?case by simp
next
  case (Cons c cs)
  then show ?case by (cases i) simp_all
qed

lemma addVolumeMounts_fold_length:
  "length (foldl (\<lambda>cs source. addVolumeMounts source cs) cs sources) = length cs"
  by (induction sources arbitrary: cs) (simp_all add: addVolumeMounts_length)

lemma addVolumeMounts_fold_nth:
  "i < length cs \<Longrightarrow>
     foldl (\<lambda>cs source. addVolumeMounts source cs) cs sources ! i =
       (cs ! i)\<lparr>c_VolumeMounts :=
          c_VolumeMounts (cs ! i)
            @ concat (map c_VolumeMounts (filter (\<lambda>source. c_Name source = c_Name (cs ! i)) sources))\<rparr>"
proof (induction sources arbitrary: cs)
  case Nil
  show ?case by simp
next
  case (Cons source sources)
  have len: "i < length (addVolumeMounts source cs)"
    using Cons.prems by (simp add: addVolumeMounts_length)
  show ?case
    using Cons.IH [OF len] Cons.prems by (simp add: addVolumeMounts_nth)
qed

lemma renameVolume_fields:
  "renameVolume ordinal vol =
     vol\<lparr>v_ConfigMap := map_option (\<lambda>cm. cm\<lparr>cm_Name := cm_Name cm @ ''-'' @ Itoa ordinal\<rparr>) (v_ConfigMap vol),
         v_Secret := map_option (\<lambda>sec. sec\<lparr>s_SecretName := s_SecretName sec @ ''-'' @ Itoa ordinal\<rparr>) (v_Secret vol)\<rparr>"
  by (cases vol) (simp add: renameVolume_def Let_def split: option.splits)

text \<open>
  C9. When the qualifier matches ordinal \<open>k\<close>, \<open>MountHandler.Mutate\<close> succeeds; the volume
  list of the pod becomes the old list followed by the declared volumes, each with the
  name of its ConfigMap and of its Secret (where it has one) extended by \<open>-k\<close>; and every
  container keeps its place and gets, after its own mounts, the mount lists of the
  declared containers of exactly its name, in the order of the declaration.
\<close>

theorem MountHandler_Mutate_appends:
  assumes "CommonPodQualifier ordinal (mc_qualifier m) = Some True" and "mc_cfg m = Some v"
  shows "\<exists>spec'. MountHandler_Mutate spec ordinal (MountConfig m) = Some (spec', None)
           \<and> Volumes spec' =
               Volumes spec
                 @ map (\<lambda>vol. vol\<lparr>v_ConfigMap :=
                                    map_option (\<lambda>cm. cm\<lparr>cm_Name := cm_Name cm @ ''-'' @ Itoa ordinal\<rparr>)
                                      (v_ConfigMap vol),
                                  v_Secret :=
                                    map_option (\<lambda>sec. sec\<lparr>s_SecretName := s_SecretName sec @ ''-'' @ Itoa ordinal\<rparr>)
                                      (v_Secret vol)\<rparr>)
                     (mcv_Volumes v)
           \<and> length (Containers spec') = length (Containers spec)
           \<and> (\<forall>i < length (Containers spec).
                 Containers spec' ! i =
                   (Containers spec ! i)\<lparr>c_VolumeMounts :=
                      c_VolumeMounts (Containers spec ! i)
                        @ concat (map c_VolumeMounts
                            (filter (\<lambda>source. c_Name source = c_Name (Containers spec ! i))
                               (mcv_Containers v)))\<rparr>)"
proof -
  let ?spec' = "spec\<lparr>Volumes := Volumes spec @ map (renameVolume ordinal) (mcv_Volumes v),
                      Containers := foldl (\<lambda>cs source. addVolumeMounts source cs)
                                      (Containers spec) (mcv_Containers v)\<rparr>"
  have run: "MountHandler_Mutate spec ordinal (MountConfig m) = Some (?spec', None)"
    using assms by (simp add: MountHandler_Mutate_def)
  have vols: "map (renameVolume ordinal) (mcv_Volumes v) =
      map (\<lambda>vol. vol\<lparr>v_ConfigMap :=
                        map_option (\<lambda>cm. cm\<lparr>cm_Name := cm_Name cm @ ''-'' @ Itoa ordinal\<rparr>)
                          (v_ConfigMap vol),
                      v_Secret :=
                        map_option (\<lambda>sec. sec\<lparr>s_SecretName := s_SecretName sec @ ''-'' @ Itoa ordinal\<rparr>)
                          (v_Secret vol)\<rparr>)
        (mcv_Volumes v)"
    by (rule map_cong) (simp_all add: renameVolume_fields)
  show ?thesis
    using run vols by (simp add: addVolumeMounts_fold_length addVolumeMounts_fold_nth)
qed

theorem MountHandler_Mutate_appends_witness:
  "CommonPodQualifier 2 (mc_qualifier \<lparr>mc_qualifier = [], mc_cfg = Some \<lparr>mcv_Volumes = [\<lparr>v_Name = ''config'', v_ConfigMap = Some \<lparr>cm_Name = ''cfg'', cm_Optional = None\<rparr>, v_Secret = None\<rparr>], mcv_Containers = [\<lparr>c_Name = ''app'', c_Image = [], c_Ports = [], c_Env = [], c_VolumeMounts = [\<lparr>vm_Name = ''config'', vm_ReadOnly = False, vm_MountPath = ''/etc/config'', vm_SubPath = []\<rparr>]\<rparr>]\<rparr>\<rparr>) = Some True
   \<and> (\<exists>spec'. MountHandler_Mutate
          \<lparr>Volumes = [], Containers = [\<lparr>c_Name = ''app'', c_Image = ''nginx'', c_Ports = [], c_Env = [], c_VolumeMounts = []\<rparr>]\<rparr>
          2
          (MountConfig \<lparr>mc_qualifier = [], mc_cfg = Some \<lparr>mcv_Volumes = [\<lparr>v_Name = ''config'', v_ConfigMap = Some \<lparr>cm_Name = ''cfg'', cm_Optional = None\<rparr>, v_Secret = None\<rparr>], mcv_Containers = [\<lparr>c_Name = ''app'', c_Image = [], c_Ports = [], c_Env = [], c_VolumeMounts = [\<lparr>vm_Name = ''config'', vm_ReadOnly = False, vm_MountPath = ''/etc/config'', vm_SubPath = []\<rparr>]\<rparr>]\<rparr>\<rparr>)
          = Some (spec', None)
        \<and> Volumes spec' = [\<lparr>v_Name = ''config'', v_ConfigMap = Some \<lparr>cm_Name = ''cfg-2'', cm_Optional = None\<rparr>, v_Secret = None\<rparr>]
        \<and> Containers spec' ! 0 = \<lparr>c_Name = ''app'', c_Image = ''nginx'', c_Ports = [], c_Env = [], c_VolumeMounts = [\<lparr>vm_Name = ''config'', vm_ReadOnly = False, vm_MountPath = ''/etc/config'', vm_SubPath = []\<rparr>]\<rparr>)"
proof -
  let ?v = "\<lparr>mcv_Volumes = [\<lparr>v_Name = ''config'', v_ConfigMap = Some \<lparr>cm_Name = ''cfg'', cm_Optional = None\<rparr>, v_Secret = None\<rparr>], mcv_Containers = [\<lparr>c_Name = ''app'', c_Image = [], c_Ports = [], c_Env = [], c_VolumeMounts = [\<lparr>vm_Name = ''config'', vm_ReadOnly = False, vm_MountPath = ''/etc/config'', vm_SubPath = []\<rparr>]\<rparr>]\<rparr>"
  let ?m = "\<lparr>mc_qualifier = [], mc_cfg = Some ?v\<rparr>"
  let ?spec = "\<lparr>Volumes = [], Containers = [\<lparr>c_Name = ''app'', c_Image = ''nginx'', c_Ports = [], c_Env = [], c_VolumeMounts = []\<rparr>]\<rparr>"
  have q: "CommonPodQualifier 2 (mc_qualifier ?m) = Some True"
    by (simp add: CommonPodQualifier_def)
  have c: "mc_cfg ?m = Some ?v" by simp
  have i: "Itoa 2 = ''2''" by code_simp
  from MountHandler_Mutate_appends [OF q c, of ?spec] show ?thesis
  proof (elim exE conjE)
    fix spec'
    assume run: "MountHandler_Mutate ?spec 2 (MountConfig ?m) = Some (spec', None)"
      and vols: "Volumes spec' =
               Volumes ?spec
                 @ map (\<lambda>vol. vol\<lparr>v_ConfigMap :=
                                    map_option (\<lambda>cm. cm\<lparr>cm_Name := cm_Name cm @ ''-'' @ Itoa 2\<rparr>)
                                      (v_ConfigMap vol),
                                  v_Secret :=
                                    map_option (\<lambda>sec. sec\<lparr>s_SecretName := s_SecretName sec @ ''-'' @ Itoa 2\<rparr>)
                                      (v_Secret vol)\<rparr>)
                     (mcv_Volumes ?v)"
      and conts: "\<forall>i < length (Containers ?spec).
                 Containers spec' ! i =
                   (Containers ?spec ! i)\<lparr>c_VolumeMounts :=
                      c_VolumeMounts (Containers ?spec ! i)
                        @ concat (map c_VolumeMounts
                            (filter (\<lambda>source. c_Name source = c_Name (Containers ?spec ! i))
                               (mcv_Containers ?v)))\<rparr>"
    from vols have v': "Volumes spec' = [\<lparr>v_Name = ''config'', v_ConfigMap = Some \<lparr>cm_Name = ''cfg-2'', cm_Optional = None\<rparr>, v_Secret = None\<rparr>]"
      by (simp add: i)
    from conts have c': "Containers spec' ! 0 = \<lparr>c_Name = ''app'', c_Image = ''nginx'', c_Ports = [], c_Env = [], c_VolumeMounts = [\<lparr>vm_Name = ''config'', vm_ReadOnly = False, vm_MountPath = ''/etc/config'', vm_SubPath = []\<rparr>]\<rparr>"
      by simp
    from q run v' c' show ?thesis
      by (intro conjI exI [of _ spec'])
  qed
qed

section \<open>The host-port handler: environment variables\<close>

lemma appendEnvVarIfNotExists_absent:
  "ev_Name envVar \<notin> ev_Name ` set envVars \<Longrightarrow>
     appendEnvVarIfNotExists envVars envVar = envVars @ [envVar]"
  by (induction envVars) auto

lemma appendEnvVarIfNotExists_present:
  "ev_Name envVar \<in> ev_Name ` set envVars \<Longrightarrow>
     \<exists>i < length envVars. ev_Name (envVars ! i) = ev_Name envVar
        \<and> (\<forall>j < i. ev_Name (envVars ! j) \<noteq> ev_Name envVar)
        \<and> appendEnvVarIfNotExists envVars envVar = envVars[i := envVar]"
proof (induction envVars)
  case Nil
  then show ?case by simp
next
  case (Cons existing envVars)
  show ?case
  proof (cases "ev_Name existing = ev_Name envVar")
    case True
    then have "0 < length (existing # envVars) \<and> ev_Name ((existing # envVars) ! 0) = ev_Name envVar
        \<and> (\<forall>j < 0. ev_Name ((existing # envVars) ! j) \<noteq> ev_Name envVar)
        \<and> appendEnvVarIfNotExists (existing # envVars) envVar = (existing # envVars)[0 := envVar]"
      by simp
    then show ?thesis by blast
  next
    case False
    with Cons.prems have "ev_Name envVar \<in> ev_Name ` set envVars" by auto
    from Cons.IH [OF this] obtain i where i: "i < length envVars"
      "ev_Name (envVars ! i) = ev_Name envVar"
      "\<forall>j < i. ev_Name (envVars ! j) \<noteq> ev_Name envVar"
      "appendEnvVarIfNotExists envVars envVar = envVars[i := envVar]"
      by auto
    have "\<forall>j < Suc i. ev_Name ((existing # envVars) ! j) \<noteq> ev_Name envVar"
    proof (intro allI impI)
      fix j assume "j < Suc i"
      then show "ev_Name ((existing # envVars) ! j) \<noteq> ev_Name envVar"
        using False i(3) by (cases j) auto
    qed
    with i False have "Suc i < length (existing # envVars)
        \<and> ev_Name ((existing # envVars) ! Suc i) = ev_Name envVar
        \<and> (\<forall>j < Suc i. ev_Name ((existing # envVars) ! j) \<noteq> ev_Name envVar)
        \<and> appendEnvVarIfNotExists (existing # envVars) envVar = (existing # envVars)[Suc i := envVar]"
      by simp
    then show ?thesis by blast
  qed
qed

lemma appendEnvVarIfNotExists_names:
  "set (map ev_Name (appendEnvVarIfNotExists envVars envVar)) = insert (ev_Name envVar) (set (map ev_Name envVars))"
  by (induction envVars) auto

lemma appendEnvVarIfNotExists_distinct:
  "distinct (map ev_Name envVars) \<Longrightarrow> distinct (map ev_Name (appendEnvVarIfNotExists envVars envVar))"
proof (induction envVars)
  case Nil
  show ?case by simp
next
  case (Cons existing envVars)
  show ?case
  proof (cases "ev_Name existing = ev_Name envVar")
    case True
    with Cons.prems show ?thesis by simp
  next
    case False
    have "ev_Name existing \<notin> set (map ev_Name (appendEnvVarIfNotExists envVars envVar))"
      using False Cons.prems by (simp add: appendEnvVarIfNotExists_names del: set_map)
    with False Cons show ?thesis by simp
  qed
qed

lemma appendEnvVarIfNotExists_fold_distinct:
  "distinct (map ev_Name env) \<Longrightarrow>
     distinct (map ev_Name (foldl (\<lambda>env (varName, varValue).
        appendEnvVarIfNotExists env \<lparr>ev_Name = varName, ev_Value = varValue\<rparr>) env vars))"
proof (induction vars arbitrary: env)
  case Nil
  then show ?case by simp
next
  case (Cons kv vars)
  obtain k v where kv: "kv = (k, v)" by (cases kv)
  show ?case
    unfolding kv using Cons.prems
    by (simp add: Cons.IH appendEnvVarIfNotExists_distinct)
qed

lemma processPort_Env: "c_Env (fst (processPort ordinal st p)) = c_Env (fst st)"
  by (simp add: processPort_def Let_def split: prod.splits bool.splits)

lemma processPort_Name: "c_Name (fst (processPort ordinal st p)) = c_Name (fst st)"
  by (simp add: processPort_def Let_def split: prod.splits bool.splits)

lemma processPort_fold_Env: "c_Env (fst (foldl (processPort ordinal) st ps)) = c_Env (fst st)"
  by (induction ps arbitrary: st) (simp_all add: processPort_Env)

lemma processPort_fold_Name: "c_Name (fst (foldl (processPort ordinal) st ps)) = c_Name (fst st)"
  by (induction ps arbitrary: st) (simp_all add: processPort_Name)

lemma env_kept_refl: "env_kept c c"
  by (simp add: env_kept_def)

lemma env_kept_trans: "env_kept a b \<Longrightarrow> env_kept b c \<Longrightarrow> env_kept a c"
  by (simp add: env_kept_def)

lemma processContainers_env_kept:
  "list_all2 env_kept cs (processContainers ord ordinal cc envs cs)"
proof (induction cs arbitrary: envs)
  case Nil
  show ?case by simp
next
  case (Cons c cs)
  show ?case
  proof (cases "c_Name c \<noteq> cpc_Name cc")
    case True
    then show ?thesis by (simp add: Cons.IH env_kept_refl)
  next
    case False
    obtain c1 envs1 where f: "foldl (processPort ordinal) (c, envs) (cpc_Ports cc) = (c1, envs1)"
      by (cases "foldl (processPort ordinal) (c, envs) (cpc_Ports cc)")
    have e: "c_Env c1 = c_Env c" and n: "c_Name c1 = c_Name c"
      using processPort_fold_Env [of ordinal "(c, envs)" "cpc_Ports cc"]
        processPort_fold_Name [of ordinal "(c, envs)" "cpc_Ports cc"] f by simp_all
    have "env_kept c (c1\<lparr>c_Env := foldl (\<lambda>env (varName, varValue).
              appendEnvVarIfNotExists env \<lparr>ev_Name = varName, ev_Value = varValue\<rparr>)
            (appendEnvVarIfNotExists (c_Env c1) \<lparr>ev_Name = PodOrdinal, ev_Value = Itoa ordinal\<rparr>)
            (ord envs1)\<rparr>)"
      by (simp add: env_kept_def e n appendEnvVarIfNotExists_fold_distinct appendEnvVarIfNotExists_distinct)
    with False f show ?thesis by (simp add: Cons.IH Let_def)
  qed
qed

lemma processContainers_fold_env_kept:
  "list_all2 env_kept cs
     (foldl (\<lambda>cs containerConfig. processContainers ord ordinal containerConfig [] cs) cs ccs)"
proof (induction ccs arbitrary: cs)
  case Nil
  show ?case by (simp add: list_all2_refl env_kept_refl)
next
  case (Cons cc ccs)
  have "list_all2 env_kept cs (processContainers ord ordinal cc [] cs)"
    by (rule processContainers_env_kept)
  moreover have "list_all2 env_kept (processContainers ord ordinal cc [] cs)
     (foldl (\<lambda>cs containerConfig. processContainers ord ordinal containerConfig [] cs)
        (processContainers ord ordinal cc [] cs) ccs)"
    by (rule Cons.IH)
  ultimately show ?case
    using list_all2_trans [of env_kept env_kept env_kept] env_kept_trans by fastforce
qed

lemma HostPortHandler_Mutate_returns:
  assumes "\<forall>m. cfg = PortConfig m \<longrightarrow> pc_cfg m \<noteq> None"
  shows "\<exists>spec' err. HostPortHandler_Mutate ord spec ordinal cfg = Some (spec', err)"
proof (cases cfg)
  case (PortConfig m)
  with assms obtain v where v: "pc_cfg m = Some v" by auto
  obtain r where r: "CommonPodQualifier ordinal (pc_qualifier m) = Some r"
    using CommonPodQualifier_total by blast
  show ?thesis
    using PortConfig v r by (cases r) (simp_all add: HostPortHandler_Mutate_def)
qed (simp_all add: HostPortHandler_Mutate_def)

lemma HostPortHandler_Mutate_env_kept:
  assumes "HostPortHandler_Mutate ord spec ordinal cfg = Some (spec', err)"
  shows "list_all2 env_kept (Containers spec) (Containers spec')"
proof (cases cfg)
  case (PortConfig m)
  show ?thesis
  proof (cases "CommonPodQualifier ordinal (pc_qualifier m)")
    case None
    with assms PortConfig show ?thesis by (simp add: HostPortHandler_Mutate_def)
  next
    case (Some r)
    show ?thesis
    proof (cases r)
      case False
      with assms PortConfig Some show ?thesis
        by (auto simp: HostPortHandler_Mutate_def list_all2_refl env_kept_refl)
    next
      case True
      with assms PortConfig Some obtain v where "pc_cfg m = Some v"
        and "spec' = spec\<lparr>Containers :=
                            foldl (\<lambda>cs containerConfig. processContainers ord ordinal containerConfig [] cs)
                              (Containers spec) (pcv_Containers v)\<rparr>"
        by (auto simp: HostPortHandler_Mutate_def split: option.splits)
      then show ?thesis by (simp add: processContainers_fold_env_kept)
    qed
  qed
next
  case NilConfig
  with assms show ?thesis
    by (auto simp: HostPortHandler_Mutate_def list_all2_refl env_kept_refl)
next
  case (MountConfig m)
  with assms show ?thesis
    by (auto simp: HostPortHandler_Mutate_def list_all2_refl env_kept_refl)
qed

text \<open>
  C10. \<open>HostPortHandler.Mutate\<close> returns on every configuration whose \<open>cfg\<close> pointer is
  not \<open>nil\<close>; whatever the order of its range loop, every container keeps its place and
  its name, and a container whose environment list has at most one entry per name still
  has at most one entry per name afterwards. \<open>appendEnvVarIfNotExists\<close> appends when no
  entry has the name, and otherwise replaces the first entry of that name in place.
\<close>

theorem HostPortHandler_Mutate_env_names:
  "((\<forall>m. cfg = PortConfig m \<longrightarrow> pc_cfg m \<noteq> None) \<longrightarrow>
      (\<exists>spec' err. HostPortHandler_Mutate ord spec ordinal cfg = Some (spec', err)))
   \<and> (HostPortHandler_Mutate ord spec ordinal cfg = Some (spec', err) \<longrightarrow>
        length (Containers spec') = length (Containers spec)
        \<and> (\<forall>i < length (Containers spec).
              c_Name (Containers spec' ! i) = c_Name (Containers spec ! i)
              \<and> (distinct (map ev_Name (c_Env (Containers spec ! i)))
                   \<longrightarrow> distinct (map ev_Name (c_Env (Containers spec' ! i))))))
   \<and> (ev_Name envVar \<notin> ev_Name ` set envVars \<longrightarrow>
        appendEnvVarIfNotExists envVars envVar = envVars @ [envVar])
   \<and> (ev_Name envVar \<in> ev_Name ` set envVars \<longrightarrow>
        (\<exists>i < length envVars. ev_Name (envVars ! i) = ev_Name envVar
           \<and> (\<forall>j < i. ev_Name (envVars ! j) \<noteq> ev_Name envVar)
           \<and> appendEnvVarIfNotExists envVars envVar = envVars[i := envVar]))"
proof (intro conjI impI)
  assume "\<forall>m. cfg = PortConfig m \<longrightarrow> pc_cfg m \<noteq> None"
  then show "\<exists>spec' err. HostPortHandler_Mutate ord spec ordinal cfg = Some (spec', err)"
    by (rule HostPortHandler_Mutate_returns)
next
  assume "HostPortHandler_Mutate ord spec ordinal cfg = Some (spec', err)"
  then have k: "list_all2 env_kept (Containers spec) (Containers spec')"
    by (rule HostPortHandler_Mutate_env_kept)
  then show "length (Containers spec') = length (Containers spec)"
    by (simp add: list_all2_lengthD)
  show "\<forall>i < length (Containers spec).
              c_Name (Containers spec' ! i) = c_Name (Containers spec ! i)
              \<and> (distinct (map ev_Name (c_Env (Containers spec ! i)))
                   \<longrightarrow> distinct (map ev_Name (c_Env (Containers spec' ! i))))"
    using k by (simp add: list_all2_conv_all_nth env_kept_def)
next
  assume "ev_Name envVar \<notin> ev_Name ` set envVars"
  then show "appendEnvVarIfNotExists envVars envVar = envVars @ [envVar]"
    by (rule appendEnvVarIfNotExists_absent)
next
  assume "ev_Name envVar \<in> ev_Name ` set envVars"
  then show "\<exists>i < length envVars. ev_Name (envVars ! i) = ev_Name envVar
           \<and> (\<forall>j < i. ev_Name (envVars ! j) \<noteq> ev_Name envVar)
           \<and> appendEnvVarIfNotExists envVars envVar = envVars[i := envVar]"
    by (rule appendEnvVarIfNotExists_present)
qed

theorem HostPortHandler_Mutate_env_names_witness:
  "HostPortHandler_Mutate (\<lambda>m. m)
         \<lparr>Volumes = [], Containers = [\<lparr>c_Name = ''web'', c_Image = [], c_Ports = [], c_Env = [\<lparr>ev_Name = ''PORT_http'', ev_Value = ''1''\<rparr>], c_VolumeMounts = []\<rparr>]\<rparr>
         2
         (PortConfig \<lparr>pc_qualifier = [], pc_cfg = Some \<lparr>pcv_Containers = [\<lparr>cpc_Name = ''web'', cpc_Ports = [\<lparr>cp_Name = ''http'', cp_HostPort = 30000, cp_ContainerPort = 8080, cp_Protocol = [], cp_HostIP = []\<rparr>]\<rparr>]\<rparr>\<rparr>)
       = Some (\<lparr>Volumes = [], Containers = [\<lparr>c_Name = ''web'', c_Image = [], c_Ports = [\<lparr>cp_Name = ''http'', cp_HostPort = 30002, cp_ContainerPort = 8080, cp_Protocol = [], cp_HostIP = []\<rparr>], c_Env = [\<lparr>ev_Name = ''PORT_http'', ev_Value = ''30002''\<rparr>, \<lparr>ev_Name = ''POD_ORDINAL'', ev_Value = ''2''\<rparr>], c_VolumeMounts = []\<rparr>]\<rparr>, None)
   \<and> distinct (map ev_Name [\<lparr>ev_Name = ''PORT_http'', ev_Value = ''1''\<rparr>])
   \<and> distinct (map ev_Name [\<lparr>ev_Name = ''PORT_http'', ev_Value = ''30002''\<rparr>, \<lparr>ev_Name = ''POD_ORDINAL'', ev_Value = ''2''\<rparr>])
   \<and> ev_Name \<lparr>ev_Name = ''B'', ev_Value = ''2''\<rparr> \<notin> ev_Name ` set [\<lparr>ev_Name = ''A'', ev_Value = ''1''\<rparr>]
   \<and> appendEnvVarIfNotExists [\<lparr>ev_Name = ''A'', ev_Value = ''1''\<rparr>] \<lparr>ev_Name = ''B'', ev_Value = ''2''\<rparr>
         = [\<lparr>ev_Name = ''A'', ev_Value = ''1''\<rparr>, \<lparr>ev_Name = ''B'', ev_Value = ''2''\<rparr>]
   \<and> ev_Name \<lparr>ev_Name = ''A'', ev_Value = ''3''\<rparr> \<in> ev_Name ` set [\<lparr>ev_Name = ''A'', ev_Value = ''1''\<rparr>]
   \<and> length (appendEnvVarIfNotExists [\<lparr>ev_Name = ''A'', ev_Value = ''1''\<rparr>] \<lparr>ev_Name = ''A'', ev_Value = ''3''\<rparr>) = 1"
proof -
  let ?cfg = "PortConfig \<lparr>pc_qualifier = [], pc_cfg = Some \<lparr>pcv_Containers = [\<lparr>cpc_Name = ''web'', cpc_Ports = [\<lparr>cp_Name = ''http'', cp_HostPort = 30000, cp_ContainerPort = 8080, cp_Protocol = [], cp_HostIP = []\<rparr>]\<rparr>]\<rparr>\<rparr>"
  let ?spec = "\<lparr>Volumes = [], Containers = [\<lparr>c_Name = ''web'', c_Image = [], c_Ports = [], c_Env = [\<lparr>ev_Name = ''PORT_http'', ev_Value = ''1''\<rparr>], c_VolumeMounts = []\<rparr>]\<rparr>"
  let ?spec' = "\<lparr>Volumes = [], Containers = [\<lparr>c_Name = ''web'', c_Image = [], c_Ports = [\<lparr>cp_Name = ''http'', cp_HostPort = 30002, cp_ContainerPort = 8080, cp_Protocol = [], cp_HostIP = []\<rparr>], c_Env = [\<lparr>ev_Name = ''PORT_http'', ev_Value = ''30002''\<rparr>, \<lparr>ev_Name = ''POD_ORDINAL'', ev_Value = ''2''\<rparr>], c_VolumeMounts = []\<rparr>]\<rparr>"
  let ?A1 = "\<lparr>ev_Name = ''A'', ev_Value = ''1''\<rparr>"
  let ?A3 = "\<lparr>ev_Name = ''A'', ev_Value = ''3''\<rparr>"
  let ?B2 = "\<lparr>ev_Name = ''B'', ev_Value = ''2''\<rparr>"
  have h1: "\<forall>m. ?cfg = PortConfig m \<longrightarrow> pc_cfg m \<noteq> None" by auto
  have run: "HostPortHandler_Mutate (\<lambda>m. m) ?spec 2 ?cfg = Some (?spec', None)" by code_simp
  have d: "distinct (map ev_Name [\<lparr>ev_Name = ''PORT_http'', ev_Value = ''1''\<rparr>])" by simp
  have ab: "ev_Name ?B2 \<notin> ev_Name ` set [?A1]" by simp
  have pr: "ev_Name ?A3 \<in> ev_Name ` set [?A1]" by simp
  note T1 = HostPortHandler_Mutate_env_names
    [where cfg = ?cfg and ord = "\<lambda>m. m" and spec = ?spec and ordinal = 2 and spec' = ?spec'
       and err = None and envVar = ?B2 and envVars = "[?A1]"]
  note T2 = HostPortHandler_Mutate_env_names
    [where cfg = ?cfg and ord = "\<lambda>m. m" and spec = ?spec and ordinal = 2 and spec' = ?spec'
       and err = None and envVar = ?A3 and envVars = "[?A1]"]
  from T1 run have "\<forall>i < length (Containers ?spec).
              c_Name (Containers ?spec' ! i) = c_Name (Containers ?spec ! i)
              \<and> (distinct (map ev_Name (c_Env (Containers ?spec ! i)))
                   \<longrightarrow> distinct (map ev_Name (c_Env (Containers ?spec' ! i))))"
    by blast
  then have "distinct (map ev_Name (c_Env (Containers ?spec ! 0)))
                   \<longrightarrow> distinct (map ev_Name (c_Env (Containers ?spec' ! 0)))"
    by simp
  then have d': "distinct (map ev_Name [\<lparr>ev_Name = ''PORT_http'', ev_Value = ''30002''\<rparr>, \<lparr>ev_Name = ''POD_ORDINAL'', ev_Value = ''2''\<rparr>])"
    by simp
  from T1 ab have a1: "appendEnvVarIfNotExists [?A1] ?B2 = [?A1] @ [?B2]" by blast
  from T2 pr obtain i where "i < length [?A1]" "appendEnvVarIfNotExists [?A1] ?A3 = [?A1][i := ?A3]"
    by blast
  then have a2: "length (appendEnvVarIfNotExists [?A1] ?A3) = 1" by simp
  from T1 h1 have "\<exists>s e. HostPortHandler_Mutate (\<lambda>m. m) ?spec 2 ?cfg = Some (s, e)" by blast
  with run d d' ab a1 pr a2 show ?thesis by simp
qed

section \<open>The host-port handler: ports\<close>

lemma setHostPort_found: "snd (setHostPort n hp ps) \<longleftrightarrow> n \<in> cp_Name ` set ps"
  by (induction ps) (auto split: prod.splits)

lemma setHostPort_names: "map cp_Name (fst (setHostPort n hp ps)) = map cp_Name ps"
  by (induction ps) (auto split: prod.splits)

lemma setHostPort_named:
  "port_named k (fst (setHostPort n hp ps)) =
     (if k = n then map_option (\<lambda>q. q\<lparr>cp_HostPort := hp\<rparr>) (port_named n ps) else port_named k ps)"
  by (induction ps) (auto simp: port_named_def split: prod.splits)

lemma port_named_None: "port_named n ps = None \<longleftrightarrow> n \<notin> cp_Name ` set ps"
  by (auto simp: port_named_def find_None_iff)

lemma port_named_append:
  "port_named n (ps @ qs) = (case port_named n ps of None \<Rightarrow> port_named n qs | Some q \<Rightarrow> Some q)"
  by (induction ps) (auto simp: port_named_def)

lemma processPort_skip: "sint (cp_HostPort p) \<le> 0 \<Longrightarrow> processPort ordinal st p = st"
  by (simp add: processPort_def)

lemma processPort_eq:
  assumes "0 < sint (cp_HostPort p)"
  shows "processPort ordinal (c, envs) p =
     (c\<lparr>c_Ports :=
          (if cp_Name p \<in> cp_Name ` set (c_Ports c)
           then fst (setHostPort (cp_Name p) (cp_HostPort p + ucast ordinal) (c_Ports c))
           else c_Ports c @ [p\<lparr>cp_HostPort := cp_HostPort p + ucast ordinal\<rparr>])\<rparr>,
      AList.update (PortPrefix @ cp_Name p) (Itoa (scast (cp_HostPort p + (ucast ordinal :: int32)))) envs)"
proof -
  obtain ps' found where s: "setHostPort (cp_Name p) (cp_HostPort p + ucast ordinal) (c_Ports c) = (ps', found)"
    by (cases "setHostPort (cp_Name p) (cp_HostPort p + ucast ordinal) (c_Ports c)")
  have f: "found \<longleftrightarrow> cp_Name p \<in> cp_Name ` set (c_Ports c)"
    using setHostPort_found [of "cp_Name p" "cp_HostPort p + ucast ordinal" "c_Ports c"] s by simp
  show ?thesis
    using assms s f by (cases found) (simp_all add: processPort_def Let_def)
qed

lemma processPort_named_same:
  assumes "0 < sint (cp_HostPort p)"
  shows "port_named (cp_Name p) (c_Ports (fst (processPort ordinal (c, envs) p))) =
     Some ((case port_named (cp_Name p) (c_Ports c) of Some q \<Rightarrow> q | None \<Rightarrow> p)
             \<lparr>cp_HostPort := cp_HostPort p + ucast ordinal\<rparr>)"
proof (cases "cp_Name p \<in> cp_Name ` set (c_Ports c)")
  case True
  then obtain q where q: "port_named (cp_Name p) (c_Ports c) = Some q"
    using port_named_None [of "cp_Name p" "c_Ports c"] by auto
  with True show ?thesis
    by (simp add: processPort_eq [OF assms] setHostPort_named)
next
  case False
  then have n: "port_named (cp_Name p) (c_Ports c) = None"
    by (simp add: port_named_None)
  with False show ?thesis
    by (simp add: processPort_eq [OF assms] port_named_append) (simp add: port_named_def)
qed

lemma processPort_named_other:
  assumes "cp_Name p \<noteq> n"
  shows "port_named n (c_Ports (fst (processPort ordinal st p))) = port_named n (c_Ports (fst st))"
proof (cases "sint (cp_HostPort p) \<le> 0")
  case True
  then show ?thesis by (simp add: processPort_skip)
next
  case False
  then have pos: "0 < sint (cp_HostPort p)" by simp
  obtain c envs where st: "st = (c, envs)" by (cases st)
  have "port_named n [p\<lparr>cp_HostPort := cp_HostPort p + ucast ordinal\<rparr>] = None"
    using assms by (simp add: port_named_def)
  then show ?thesis
    unfolding st using assms
    by (simp add: processPort_eq [OF pos] setHostPort_named port_named_append split: option.splits)
qed

lemma processPort_names_prefix:
  "\<exists>rest. map cp_Name (c_Ports (fst (processPort ordinal st p))) = map cp_Name (c_Ports (fst st)) @ rest"
proof (cases "sint (cp_HostPort p) \<le> 0")
  case True
  then show ?thesis by (simp add: processPort_skip)
next
  case False
  then have pos: "0 < sint (cp_HostPort p)" by simp
  obtain c envs where st: "st = (c, envs)" by (cases st)
  show ?thesis
    unfolding st by (simp add: processPort_eq [OF pos] setHostPort_names)
qed

lemma processPort_envs_same:
  "0 < sint (cp_HostPort p) \<Longrightarrow>
     map_of (snd (processPort ordinal (c, envs) p)) (PortPrefix @ cp_Name p)
       = Some (Itoa (scast (cp_HostPort p + (ucast ordinal :: int32))))"
  by (simp add: processPort_eq update_conv')

lemma processPort_envs_other:
  assumes "cp_Name p \<noteq> n"
  shows "map_of (snd (processPort ordinal st p)) (PortPrefix @ n) = map_of (snd st) (PortPrefix @ n)"
proof (cases "sint (cp_HostPort p) \<le> 0")
  case True
  then show ?thesis by (simp add: processPort_skip)
next
  case False
  then have pos: "0 < sint (cp_HostPort p)" by simp
  obtain c envs where st: "st = (c, envs)" by (cases st)
  show ?thesis
    unfolding st using assms by (simp add: processPort_eq [OF pos] update_conv')
qed

lemma processPort_envs_distinct:
  "distinct (map fst (snd st)) \<Longrightarrow> distinct (map fst (snd (processPort ordinal st p)))"
proof (cases "sint (cp_HostPort p) \<le> 0")
  case True
  assume "distinct (map fst (snd st))"
  with True show ?thesis by (simp add: processPort_skip)
next
  case False
  assume d: "distinct (map fst (snd st))"
  from False have pos: "0 < sint (cp_HostPort p)" by simp
  obtain c envs where st: "st = (c, envs)" by (cases st)
  show ?thesis
    using d unfolding st by (simp add: processPort_eq [OF pos] distinct_update)
qed

lemma processPort_fold_names_prefix:
  "\<exists>rest. map cp_Name (c_Ports (fst (foldl (processPort ordinal) st ps)))
            = map cp_Name (c_Ports (fst st)) @ rest"
proof (induction ps arbitrary: st)
  case Nil
  show ?case by simp
next
  case (Cons p ps)
  from processPort_names_prefix [of ordinal st p] obtain r1 where
    r1: "map cp_Name (c_Ports (fst (processPort ordinal st p))) = map cp_Name (c_Ports (fst st)) @ r1"
    by auto
  from Cons.IH [of "processPort ordinal st p"] obtain r2 where
    r2: "map cp_Name (c_Ports (fst (foldl (processPort ordinal) (processPort ordinal st p) ps)))
           = map cp_Name (c_Ports (fst (processPort ordinal st p))) @ r2"
    by auto
  from r1 r2 show ?case by simp
qed

lemma processPort_fold_envs_distinct:
  "distinct (map fst (snd st)) \<Longrightarrow> distinct (map fst (snd (foldl (processPort ordinal) st ps)))"
  by (induction ps arbitrary: st) (simp_all add: processPort_envs_distinct)

lemma positive_named_Cons: "positive_named n (p # ps) = positive_named n [p] @ positive_named n ps"
  by (simp add: positive_named_def)

lemma positive_named_append: "positive_named n (ps @ qs) = positive_named n ps @ positive_named n qs"
  by (simp add: positive_named_def)

lemma overwritten_port_append:
  "overwritten_port (overwritten_port old xs d) ys d = overwritten_port old (xs @ ys) d"
  by (cases old) (simp_all add: overwritten_port_def)

lemma overwritten_value_append:
  "overwritten_value (overwritten_value old xs d) ys d = overwritten_value old (xs @ ys) d"
  by (simp add: overwritten_value_def)

lemma overwritten_env_append:
  "overwritten_env n (overwritten_env n old xs d) ys d = overwritten_env n old (xs @ ys) d"
  by (simp add: overwritten_env_def)

lemma processPort_step_port:
  "port_named n (c_Ports (fst (processPort ordinal (c, envs) p)))
     = overwritten_port (port_named n (c_Ports c)) (positive_named n [p]) (ucast ordinal)"
proof (cases "cp_Name p = n")
  case False
  then show ?thesis
    using processPort_named_other [of p n ordinal "(c, envs)"]
    by (simp add: positive_named_def overwritten_port_def)
next
  case True
  show ?thesis
  proof (cases "0 < sint (cp_HostPort p)")
    case pos: True
    show ?thesis
      using processPort_named_same [OF pos, of ordinal c envs] True pos
      by (simp add: positive_named_def overwritten_port_def split: option.splits)
  next
    case False
    then have "processPort ordinal (c, envs) p = (c, envs)"
      by (simp add: processPort_skip)
    with False show ?thesis
      by (simp add: positive_named_def overwritten_port_def)
  qed
qed

lemma processPort_step_value:
  "map_of (snd (processPort ordinal (c, envs) p)) (PortPrefix @ n)
     = overwritten_value (map_of envs (PortPrefix @ n)) (positive_named n [p]) (ucast ordinal)"
proof (cases "cp_Name p = n")
  case False
  then show ?thesis
    using processPort_envs_other [of p n ordinal "(c, envs)"]
    by (simp add: positive_named_def overwritten_value_def)
next
  case True
  show ?thesis
  proof (cases "0 < sint (cp_HostPort p)")
    case pos: True
    show ?thesis
      using processPort_envs_same [OF pos, of ordinal c envs] True pos
      by (simp add: positive_named_def overwritten_value_def)
  next
    case False
    then have "processPort ordinal (c, envs) p = (c, envs)"
      by (simp add: processPort_skip)
    with False show ?thesis
      by (simp add: positive_named_def overwritten_value_def)
  qed
qed

lemma processPort_fold_port:
  "port_named n (c_Ports (fst (foldl (processPort ordinal) (c, envs) ps)))
     = overwritten_port (port_named n (c_Ports c)) (positive_named n ps) (ucast ordinal)"
proof (induction ps arbitrary: c envs)
  case Nil
  show ?case by (simp add: positive_named_def overwritten_port_def)
next
  case (Cons p ps)
  obtain c1 envs1 where s: "processPort ordinal (c, envs) p = (c1, envs1)"
    by (cases "processPort ordinal (c, envs) p")
  have "port_named n (c_Ports c1)
          = overwritten_port (port_named n (c_Ports c)) (positive_named n [p]) (ucast ordinal)"
    using processPort_step_port [of n ordinal c envs p] s by simp
  then show ?case
    by (simp add: s Cons.IH overwritten_port_append positive_named_Cons [of n p ps])
qed

lemma processPort_fold_value:
  "map_of (snd (foldl (processPort ordinal) (c, envs) ps)) (PortPrefix @ n)
     = overwritten_value (map_of envs (PortPrefix @ n)) (positive_named n ps) (ucast ordinal)"
proof (induction ps arbitrary: c envs)
  case Nil
  show ?case by (simp add: positive_named_def overwritten_value_def)
next
  case (Cons p ps)
  obtain c1 envs1 where s: "processPort ordinal (c, envs) p = (c1, envs1)"
    by (cases "processPort ordinal (c, envs) p")
  have "map_of envs1 (PortPrefix @ n)
          = overwritten_value (map_of envs (PortPrefix @ n)) (positive_named n [p]) (ucast ordinal)"
    using processPort_step_value [of ordinal c envs p n] s by simp
  then show ?case
    by (simp add: s Cons.IH overwritten_value_append positive_named_Cons [of n p ps])
qed

lemma port_vars_of_Nil: "port_vars_of ordinal cc []"
  by (simp add: port_vars_of_def)

lemma port_vars_of_value:
  assumes "port_vars_of ordinal cc envs"
  shows "map_of (snd (foldl (processPort ordinal) (c, envs) (cpc_Ports cc))) (PortPrefix @ n)
           = overwritten_value None (positive_named n (cpc_Ports cc)) (ucast ordinal)"
proof -
  from assms have "map_of envs (PortPrefix @ n) = None
      \<or> map_of envs (PortPrefix @ n) = overwritten_value None (positive_named n (cpc_Ports cc)) (ucast ordinal)"
    unfolding port_vars_of_def by blast
  then show ?thesis
    unfolding processPort_fold_value by (auto simp: overwritten_value_def)
qed

lemma port_vars_of_fold:
  assumes "port_vars_of ordinal cc envs"
  shows "port_vars_of ordinal cc (snd (foldl (processPort ordinal) (c, envs) (cpc_Ports cc)))"
proof -
  have "distinct (map fst envs)" using assms by (simp add: port_vars_of_def)
  then have "distinct (map fst (snd (foldl (processPort ordinal) (c, envs) (cpc_Ports cc))))"
    using processPort_fold_envs_distinct [of "(c, envs)" ordinal "cpc_Ports cc"] by simp
  then show ?thesis
    unfolding port_vars_of_def using port_vars_of_value [OF assms] by simp
qed

section \<open>The host-port handler: containers\<close>

lemma env_named_appendEnvVarIfNotExists:
  "env_named k (appendEnvVarIfNotExists env e) = (if ev_Name e = k then Some e else env_named k env)"
  by (induction env) (auto simp: env_named_def)

lemma setPortEnvVars_Cons:
  "setPortEnvVars env ((k, v) # vars) =
     setPortEnvVars (appendEnvVarIfNotExists env \<lparr>ev_Name = k, ev_Value = v\<rparr>) vars"
  by (simp add: setPortEnvVars_def)

lemma setPortEnvVars_other:
  "k \<notin> fst ` set vars \<Longrightarrow> env_named k (setPortEnvVars env vars) = env_named k env"
proof (induction vars arbitrary: env)
  case Nil
  show ?case by (simp add: setPortEnvVars_def)
next
  case (Cons kv vars)
  obtain k' v' where kv: "kv = (k', v')" by (cases kv)
  from Cons.prems have "k' \<noteq> k" "k \<notin> fst ` set vars" by (auto simp: kv)
  then show ?case
    unfolding kv by (simp add: setPortEnvVars_Cons Cons.IH env_named_appendEnvVarIfNotExists)
qed

lemma setPortEnvVars_member:
  "distinct (map fst vars) \<Longrightarrow> (k, v) \<in> set vars \<Longrightarrow>
     env_named k (setPortEnvVars env vars) = Some \<lparr>ev_Name = k, ev_Value = v\<rparr>"
proof (induction vars arbitrary: env)
  case Nil
  then show ?case by simp
next
  case (Cons kv vars)
  obtain k' v' where kv: "kv = (k', v')" by (cases kv)
  show ?case
  proof (cases "k' = k")
    case True
    have notin: "k \<notin> fst ` set vars" using Cons.prems(1) True by (simp add: kv)
    have "v' = v"
    proof (rule ccontr)
      assume "v' \<noteq> v"
      with Cons.prems(2) True have "(k, v) \<in> set vars" by (simp add: kv)
      then have "k \<in> fst ` set vars" by force
      with notin show False by simp
    qed
    with True notin show ?thesis
      unfolding kv
      by (simp add: setPortEnvVars_Cons setPortEnvVars_other env_named_appendEnvVarIfNotExists)
  next
    case False
    with Cons.prems have "distinct (map fst vars)" "(k, v) \<in> set vars" by (auto simp: kv)
    then show ?thesis
      unfolding kv by (simp add: setPortEnvVars_Cons Cons.IH)
  qed
qed

lemma processContainers_Cons:
  "processContainers ord ordinal cc envs (c # rest) =
     (if c_Name c \<noteq> cpc_Name cc then c # processContainers ord ordinal cc envs rest
      else processContainer ord ordinal cc envs c
             # processContainers ord ordinal cc
                 (snd (foldl (processPort ordinal) (c, envs) (cpc_Ports cc))) rest)"
  by (simp add: processContainer_def setPortEnvVars_def Let_def split: prod.splits)

lemma processContainers_length: "length (processContainers ord ordinal cc envs cs) = length cs"
  by (induction cs arbitrary: envs) (simp_all only: processContainers.simps(1) processContainers_Cons list.size if_split, simp_all)

lemma processContainers_nth_other:
  "i < length cs \<Longrightarrow> c_Name (cs ! i) \<noteq> cpc_Name cc \<Longrightarrow>
     processContainers ord ordinal cc envs cs ! i = cs ! i"
proof (induction cs arbitrary: i envs)
  case Nil
  then show ?case by simp
next
  case (Cons c cs)
  show ?case
  proof (cases i)
    case 0
    with Cons.prems show ?thesis by (simp only: processContainers_Cons) simp
  next
    case (Suc j)
    with Cons.prems have "j < length cs" "c_Name (cs ! j) \<noteq> cpc_Name cc" by simp_all
    then have "\<And>envs. processContainers ord ordinal cc envs cs ! j = cs ! j"
      by (rule Cons.IH)
    with Suc show ?thesis by (simp only: processContainers_Cons) simp
  qed
qed

lemma processContainers_fold_length:
  "length (foldl (\<lambda>cs containerConfig. processContainers ord ordinal containerConfig [] cs) cs ccs)
     = length cs"
  by (induction ccs arbitrary: cs) (simp_all add: processContainers_length)

lemma processContainer_Name: "c_Name (processContainer ord ordinal cc envs c) = c_Name c"
proof -
  obtain c1 envs1 where f: "foldl (processPort ordinal) (c, envs) (cpc_Ports cc) = (c1, envs1)"
    by (cases "foldl (processPort ordinal) (c, envs) (cpc_Ports cc)")
  with processPort_fold_Name [of ordinal "(c, envs)" "cpc_Ports cc"] have "c_Name c1 = c_Name c"
    by simp
  with f show ?thesis by (simp add: processContainer_def)
qed

lemma processContainer_Ports:
  "c_Ports (processContainer ord ordinal cc envs c)
     = c_Ports (fst (foldl (processPort ordinal) (c, envs) (cpc_Ports cc)))"
proof -
  obtain c1 envs1 where f: "foldl (processPort ordinal) (c, envs) (cpc_Ports cc) = (c1, envs1)"
    by (cases "foldl (processPort ordinal) (c, envs) (cpc_Ports cc)")
  then show ?thesis by (simp add: processContainer_def)
qed

lemma processContainer_Env:
  "c_Env (processContainer ord ordinal cc envs c)
     = setPortEnvVars
         (appendEnvVarIfNotExists (c_Env c) \<lparr>ev_Name = PodOrdinal, ev_Value = Itoa ordinal\<rparr>)
         (ord (snd (foldl (processPort ordinal) (c, envs) (cpc_Ports cc))))"
proof -
  obtain c1 envs1 where f: "foldl (processPort ordinal) (c, envs) (cpc_Ports cc) = (c1, envs1)"
    by (cases "foldl (processPort ordinal) (c, envs) (cpc_Ports cc)")
  with processPort_fold_Env [of ordinal "(c, envs)" "cpc_Ports cc"] have "c_Env c1 = c_Env c"
    by simp
  with f show ?thesis by (simp add: processContainer_def)
qed

lemma PodOrdinal_not_port: "PodOrdinal \<noteq> PortPrefix @ n"
  by (simp add: PodOrdinal_def PortPrefix_def)

lemma processContainer_port:
  "port_named n (c_Ports (processContainer ord ordinal cc envs c))
     = overwritten_port (port_named n (c_Ports c)) (positive_named n (cpc_Ports cc)) (ucast ordinal)"
  unfolding processContainer_Ports by (rule processPort_fold_port)

lemma processContainer_names_prefix:
  "\<exists>rest. map cp_Name (c_Ports (processContainer ord ordinal cc envs c)) = map cp_Name (c_Ports c) @ rest"
  unfolding processContainer_Ports
  using processPort_fold_names_prefix [of ordinal "(c, envs)" "cpc_Ports cc"] by simp

lemma processContainer_env:
  assumes "port_vars_of ordinal cc envs" and "range_order ord"
  shows "env_named (PortPrefix @ n) (c_Env (processContainer ord ordinal cc envs c))
     = overwritten_env n (env_named (PortPrefix @ n) (c_Env c)) (positive_named n (cpc_Ports cc))
         (ucast ordinal)"
proof -
  let ?envs1 = "snd (foldl (processPort ordinal) (c, envs) (cpc_Ports cc))"
  let ?pos = "positive_named n (cpc_Ports cc)"
  let ?env0 = "appendEnvVarIfNotExists (c_Env c) \<lparr>ev_Name = PodOrdinal, ev_Value = Itoa ordinal\<rparr>"
  have "port_vars_of ordinal cc ?envs1" using assms(1) by (rule port_vars_of_fold)
  then have d: "distinct (map fst ?envs1)" by (simp add: port_vars_of_def)
  with assms(2) have ro: "distinct (map fst (ord ?envs1))" "set (ord ?envs1) = set ?envs1"
    unfolding range_order_def by blast+
  have m: "map_of ?envs1 (PortPrefix @ n) = overwritten_value None ?pos (ucast ordinal)"
    using assms(1) by (rule port_vars_of_value)
  have e0: "env_named (PortPrefix @ n) ?env0 = env_named (PortPrefix @ n) (c_Env c)"
    using PodOrdinal_not_port [of n] by (simp add: env_named_appendEnvVarIfNotExists)
  show ?thesis
  proof (cases "?pos = []")
    case True
    with m have "map_of ?envs1 (PortPrefix @ n) = None" by (simp add: overwritten_value_def)
    then have "PortPrefix @ n \<notin> fst ` set ?envs1" by (simp add: map_of_eq_None_iff)
    then have "PortPrefix @ n \<notin> fst ` set (ord ?envs1)" using ro(2) by simp
    then have "env_named (PortPrefix @ n) (setPortEnvVars ?env0 (ord ?envs1))
                 = env_named (PortPrefix @ n) ?env0"
      by (rule setPortEnvVars_other)
    with True e0 show ?thesis
      unfolding processContainer_Env by (simp add: overwritten_env_def)
  next
    case False
    with m have "map_of ?envs1 (PortPrefix @ n)
                   = Some (Itoa (scast (cp_HostPort (last ?pos) + (ucast ordinal :: int32))))"
      by (simp add: overwritten_value_def)
    then have "(PortPrefix @ n, Itoa (scast (cp_HostPort (last ?pos) + (ucast ordinal :: int32))))
                 \<in> set ?envs1"
      by (rule map_of_SomeD)
    then have "(PortPrefix @ n, Itoa (scast (cp_HostPort (last ?pos) + (ucast ordinal :: int32))))
                 \<in> set (ord ?envs1)"
      using ro(2) by simp
    with ro(1) have "env_named (PortPrefix @ n) (setPortEnvVars ?env0 (ord ?envs1))
        = Some \<lparr>ev_Name = PortPrefix @ n,
                 ev_Value = Itoa (scast (cp_HostPort (last ?pos) + (ucast ordinal :: int32)))\<rparr>"
      by (rule setPortEnvVars_member)
    with False show ?thesis
      unfolding processContainer_Env by (simp add: overwritten_env_def)
  qed
qed

lemma processContainers_nth_match:
  "port_vars_of ordinal cc envs \<Longrightarrow> i < length cs \<Longrightarrow> c_Name (cs ! i) = cpc_Name cc \<Longrightarrow>
     \<exists>envs0. port_vars_of ordinal cc envs0
        \<and> processContainers ord ordinal cc envs cs ! i = processContainer ord ordinal cc envs0 (cs ! i)"
proof (induction cs arbitrary: i envs)
  case Nil
  then show ?case by simp
next
  case (Cons c cs)
  show ?case
  proof (cases i)
    case 0
    with Cons.prems have "processContainers ord ordinal cc envs (c # cs) ! i
        = processContainer ord ordinal cc envs ((c # cs) ! i)"
      by (simp only: processContainers_Cons) simp
    with Cons.prems(1) show ?thesis by blast
  next
    case (Suc j)
    with Cons.prems have j: "j < length cs" "c_Name (cs ! j) = cpc_Name cc" by simp_all
    let ?envs' = "if c_Name c \<noteq> cpc_Name cc then envs
                  else snd (foldl (processPort ordinal) (c, envs) (cpc_Ports cc))"
    have d: "port_vars_of ordinal cc ?envs'"
      using Cons.prems(1) port_vars_of_fold [OF Cons.prems(1), of c] by simp
    from Cons.IH [OF d j] obtain envs0 where e: "port_vars_of ordinal cc envs0"
      "processContainers ord ordinal cc ?envs' cs ! j = processContainer ord ordinal cc envs0 (cs ! j)"
      by blast
    have "processContainers ord ordinal cc envs (c # cs) ! i
            = processContainers ord ordinal cc ?envs' cs ! j"
      unfolding Suc by (simp only: processContainers_Cons) simp
    with e Suc show ?thesis by auto
  qed
qed

lemma declared_in_Cons:
  "declared_in cn n (cc # ccs) = declared_in cn n [cc] @ declared_in cn n ccs"
  by (simp add: declared_in_def positive_named_def)

lemma declared_in_one:
  "declared_in cn n [cc] = (if cpc_Name cc = cn then positive_named n (cpc_Ports cc) else [])"
  by (simp add: declared_in_def positive_named_def)

text \<open>
  One \<open>containerConfig\<close> on the container at index \<open>i\<close>, for every port name \<open>n\<close>.
\<close>

lemma processContainers_step:
  assumes "range_order ord" and "i < length cs"
  shows "c_Name (processContainers ord ordinal cc [] cs ! i) = c_Name (cs ! i)"
    and "port_named n (c_Ports (processContainers ord ordinal cc [] cs ! i))
           = overwritten_port (port_named n (c_Ports (cs ! i)))
               (declared_in (c_Name (cs ! i)) n [cc]) (ucast ordinal)"
    and "env_named (PortPrefix @ n) (c_Env (processContainers ord ordinal cc [] cs ! i))
           = overwritten_env n (env_named (PortPrefix @ n) (c_Env (cs ! i)))
               (declared_in (c_Name (cs ! i)) n [cc]) (ucast ordinal)"
    and "\<exists>rest. map cp_Name (c_Ports (processContainers ord ordinal cc [] cs ! i))
                  = map cp_Name (c_Ports (cs ! i)) @ rest"
proof -
  let ?c' = "processContainers ord ordinal cc [] cs ! i"
  have all: "c_Name ?c' = c_Name (cs ! i)
    \<and> port_named n (c_Ports ?c')
         = overwritten_port (port_named n (c_Ports (cs ! i)))
             (declared_in (c_Name (cs ! i)) n [cc]) (ucast ordinal)
    \<and> env_named (PortPrefix @ n) (c_Env ?c')
         = overwritten_env n (env_named (PortPrefix @ n) (c_Env (cs ! i)))
             (declared_in (c_Name (cs ! i)) n [cc]) (ucast ordinal)
    \<and> (\<exists>rest. map cp_Name (c_Ports ?c') = map cp_Name (c_Ports (cs ! i)) @ rest)"
  proof (cases "c_Name (cs ! i) = cpc_Name cc")
    case False
    then have "?c' = cs ! i"
      using assms(2) by (simp add: processContainers_nth_other)
    moreover from False have "declared_in (c_Name (cs ! i)) n [cc] = []"
      by (auto simp: declared_in_one)
    ultimately show ?thesis
      by (simp add: overwritten_port_def overwritten_env_def)
  next
    case True
    from processContainers_nth_match [OF port_vars_of_Nil assms(2) True, of ordinal ord]
    obtain envs0 where e: "port_vars_of ordinal cc envs0"
      and r: "?c' = processContainer ord ordinal cc envs0 (cs ! i)"
      by blast
    from True have dd: "declared_in (c_Name (cs ! i)) n [cc] = positive_named n (cpc_Ports cc)"
      by (simp add: declared_in_one)
    show ?thesis
      unfolding r dd
      using processContainer_Name [of ord ordinal cc envs0 "cs ! i"]
        processContainer_port [of n ord ordinal cc envs0 "cs ! i"]
        processContainer_env [OF e assms(1), of n "cs ! i"]
        processContainer_names_prefix [of ord ordinal cc envs0 "cs ! i"]
      by simp
  qed
  from all show "c_Name ?c' = c_Name (cs ! i)" by simp
  from all show "port_named n (c_Ports ?c')
         = overwritten_port (port_named n (c_Ports (cs ! i)))
             (declared_in (c_Name (cs ! i)) n [cc]) (ucast ordinal)" by simp
  from all show "env_named (PortPrefix @ n) (c_Env ?c')
         = overwritten_env n (env_named (PortPrefix @ n) (c_Env (cs ! i)))
             (declared_in (c_Name (cs ! i)) n [cc]) (ucast ordinal)" by simp
  from all show "\<exists>rest. map cp_Name (c_Ports ?c') = map cp_Name (c_Ports (cs ! i)) @ rest" by simp
qed

text \<open>The whole configuration on the container at index \<open>i\<close>.\<close>

lemma processContainers_fold_declared:
  assumes "range_order ord"
  shows "i < length cs \<Longrightarrow>
    c_Name (foldl (\<lambda>cs containerConfig. processContainers ord ordinal containerConfig [] cs) cs ccs ! i)
      = c_Name (cs ! i)
    \<and> port_named n (c_Ports (foldl (\<lambda>cs containerConfig. processContainers ord ordinal containerConfig [] cs) cs ccs ! i))
        = overwritten_port (port_named n (c_Ports (cs ! i)))
            (declared_in (c_Name (cs ! i)) n ccs) (ucast ordinal)
    \<and> env_named (PortPrefix @ n) (c_Env (foldl (\<lambda>cs containerConfig. processContainers ord ordinal containerConfig [] cs) cs ccs ! i))
        = overwritten_env n (env_named (PortPrefix @ n) (c_Env (cs ! i)))
            (declared_in (c_Name (cs ! i)) n ccs) (ucast ordinal)
    \<and> (\<exists>rest. map cp_Name (c_Ports (foldl (\<lambda>cs containerConfig. processContainers ord ordinal containerConfig [] cs) cs ccs ! i))
                 = map cp_Name (c_Ports (cs ! i)) @ rest)"
proof (induction ccs arbitrary: cs)
  case Nil
  show ?case
    by (simp add: declared_in_def positive_named_def overwritten_port_def overwritten_env_def)
next
  case (Cons cc ccs)
  let ?cs1 = "processContainers ord ordinal cc [] cs"
  have i1: "i < length ?cs1" using Cons.prems by (simp add: processContainers_length)
  note S = processContainers_step [OF assms Cons.prems, where ordinal = ordinal and cc = cc]
  note I = Cons.IH [OF i1]
  from S(4) obtain r1 where r1: "map cp_Name (c_Ports (?cs1 ! i)) = map cp_Name (c_Ports (cs ! i)) @ r1"
    by blast
  from I obtain r2 where r2: "map cp_Name (c_Ports (foldl (\<lambda>cs containerConfig. processContainers ord ordinal containerConfig [] cs) ?cs1 ccs ! i))
                 = map cp_Name (c_Ports (?cs1 ! i)) @ r2"
    by blast
  have pre: "\<exists>rest. map cp_Name (c_Ports (foldl (\<lambda>cs containerConfig. processContainers ord ordinal containerConfig [] cs) ?cs1 ccs ! i))
                 = map cp_Name (c_Ports (cs ! i)) @ rest"
    using r1 r2 by simp
  show ?case
    using I pre
    by (simp add: S(1) S(2) [where n = n] S(3) [where n = n] overwritten_port_append overwritten_env_append
        declared_in_Cons [of _ n cc ccs])
qed

section \<open>The host-port handler: the last declaration decides\<close>

lemma overwritten_port_last:
  "decls \<noteq> [] \<Longrightarrow> cp_HostPort (last decls) + d = h \<Longrightarrow>
     overwritten_port old decls d
       = Some ((case old of Some q \<Rightarrow> q | None \<Rightarrow> hd decls)\<lparr>cp_HostPort := h\<rparr>)"
  by (simp add: overwritten_port_def)

lemma overwritten_env_last:
  "decls \<noteq> [] \<Longrightarrow> cp_HostPort (last decls) + d = h \<Longrightarrow> Itoa (scast h) = s \<Longrightarrow>
     PortPrefix @ n = k \<Longrightarrow>
     overwritten_env n old decls d = Some \<lparr>ev_Name = k, ev_Value = s\<rparr>"
  by (auto simp: overwritten_env_def)

lemma HostPortHandler_Mutate_declared:
  assumes q: "CommonPodQualifier ordinal (pc_qualifier m) = Some True"
    and v: "pc_cfg m = Some v"
    and i: "i < length (Containers spec)"
    and ne: "declared_in (c_Name (Containers spec ! i)) n (pcv_Containers v) \<noteq> []"
    and h: "cp_HostPort (last (declared_in (c_Name (Containers spec ! i)) n (pcv_Containers v)))
              + (ucast ordinal :: int32) = h"
    and s: "Itoa (scast h) = s"
    and k: "PortPrefix @ n = k"
    and ord: "range_order ord"
  shows "\<exists>spec'. HostPortHandler_Mutate ord spec ordinal (PortConfig m) = Some (spec', None)
           \<and> length (Containers spec') = length (Containers spec)
           \<and> c_Name (Containers spec' ! i) = c_Name (Containers spec ! i)
           \<and> port_named n (c_Ports (Containers spec' ! i)) =
               Some ((case port_named n (c_Ports (Containers spec ! i)) of
                        Some q \<Rightarrow> q
                      | None \<Rightarrow> hd (declared_in (c_Name (Containers spec ! i)) n (pcv_Containers v)))
                       \<lparr>cp_HostPort := h\<rparr>)
           \<and> (\<exists>rest. map cp_Name (c_Ports (Containers spec' ! i))
                        = map cp_Name (c_Ports (Containers spec ! i)) @ rest)
           \<and> env_named k (c_Env (Containers spec' ! i)) = Some \<lparr>ev_Name = k, ev_Value = s\<rparr>"
proof -
  let ?G = "\<lambda>cs containerConfig. processContainers ord ordinal containerConfig [] cs"
  let ?cs0 = "Containers spec"
  let ?cs' = "foldl ?G ?cs0 (pcv_Containers v)"
  have run: "HostPortHandler_Mutate ord spec ordinal (PortConfig m)
               = Some (spec\<lparr>Containers := ?cs'\<rparr>, None)"
    by (simp add: HostPortHandler_Mutate_def q v)
  have len: "length ?cs' = length ?cs0" by (rule processContainers_fold_length)
  note D = processContainers_fold_declared
    [OF ord i, where ordinal = ordinal and ccs = "pcv_Containers v" and n = n]
  from D have name: "c_Name (?cs' ! i) = c_Name (?cs0 ! i)" by (elim conjE)
  from D have port: "port_named n (c_Ports (?cs' ! i))
        = overwritten_port (port_named n (c_Ports (?cs0 ! i)))
            (declared_in (c_Name (?cs0 ! i)) n (pcv_Containers v)) (ucast ordinal)"
    by (elim conjE)
  from D have env: "env_named (PortPrefix @ n) (c_Env (?cs' ! i))
        = overwritten_env n (env_named (PortPrefix @ n) (c_Env (?cs0 ! i)))
            (declared_in (c_Name (?cs0 ! i)) n (pcv_Containers v)) (ucast ordinal)"
    by (elim conjE)
  from D have pre: "\<exists>rest. map cp_Name (c_Ports (?cs' ! i)) = map cp_Name (c_Ports (?cs0 ! i)) @ rest"
    by (elim conjE)
  have env': "env_named k (c_Env (?cs' ! i)) = Some \<lparr>ev_Name = k, ev_Value = s\<rparr>"
    using env overwritten_env_last [OF ne h s k] unfolding k by simp
  from run len name port pre env' overwritten_port_last [OF ne h]
  show ?thesis by simp
qed

section \<open>Claim about the host port of a pod\<close>

text \<open>
  C8, as amended. A host-port configuration whose qualifier matches ordinal 2 is applied to
  a pod with a container at index \<open>i\<close>. The declarations that count for that container are
  the ports named \<open>http\<close> with a host port above zero in the entries of the configuration
  that carry the container's name, in the order of the configuration; there is at least
  one, and the last of them has host-port base 30000. Then \<open>Mutate\<close> succeeds, and in that
  container: the first port named \<open>http\<close> has host port 30002, and it is the first port of
  that name that the container had, otherwise unchanged, or a copy of the first declaration
  that counts when the container had none; the ports the container had keep their places
  and names, so the former is an overwrite in place and the latter an append; and the first
  environment variable named \<open>PORT_http\<close> has the value \<open>30002\<close>. This holds for every
  order of the range loop over the port variables. A later declaration overwrites an
  earlier one, so a declaration with base 30000 that is not the last one does not decide.
\<close>

theorem HostPortHandler_Mutate_http:
  assumes "CommonPodQualifier 2 (pc_qualifier m) = Some True"
    and "pc_cfg m = Some v"
    and "i < length (Containers spec)"
    and "declared_ports (c_Name (Containers spec ! i)) ''http'' v \<noteq> []"
    and "cp_HostPort (last (declared_ports (c_Name (Containers spec ! i)) ''http'' v)) = 30000"
    and "range_order ord"
  shows "\<exists>spec'. HostPortHandler_Mutate ord spec 2 (PortConfig m) = Some (spec', None)
           \<and> length (Containers spec') = length (Containers spec)
           \<and> c_Name (Containers spec' ! i) = c_Name (Containers spec ! i)
           \<and> port_named ''http'' (c_Ports (Containers spec' ! i)) =
               Some ((case port_named ''http'' (c_Ports (Containers spec ! i)) of
                        Some q \<Rightarrow> q
                      | None \<Rightarrow> hd (declared_ports (c_Name (Containers spec ! i)) ''http'' v))
                       \<lparr>cp_HostPort := 30002\<rparr>)
           \<and> (\<exists>rest. map cp_Name (c_Ports (Containers spec' ! i))
                        = map cp_Name (c_Ports (Containers spec ! i)) @ rest)
           \<and> env_named ''PORT_http'' (c_Env (Containers spec' ! i)) =
               Some \<lparr>ev_Name = ''PORT_http'', ev_Value = ''30002''\<rparr>"
proof -
  have ne: "declared_in (c_Name (Containers spec ! i)) ''http'' (pcv_Containers v) \<noteq> []"
    using assms(4) unfolding declared_ports_def .
  have la: "cp_HostPort (last (declared_in (c_Name (Containers spec ! i)) ''http'' (pcv_Containers v)))
              = 30000"
    using assms(5) unfolding declared_ports_def .
  have hp: "cp_HostPort (last (declared_in (c_Name (Containers spec ! i)) ''http'' (pcv_Containers v)))
              + (ucast (2 :: go_int) :: int32) = 30002"
    unfolding la by simp
  have it: "Itoa (scast (30002 :: int32)) = ''30002''" by code_simp
  have nm: "PortPrefix @ ''http'' = ''PORT_http''" by (simp add: PortPrefix_def)
  note G = HostPortHandler_Mutate_declared [OF assms(1) assms(2) assms(3) ne hp it nm assms(6)]
  show ?thesis
    unfolding declared_ports_def by (rule G)
qed

theorem HostPortHandler_Mutate_http_witness:
  "CommonPodQualifier 2 [] = Some True
   \<and> declared_ports ''web'' ''http''
        \<lparr>pcv_Containers =
           [\<lparr>cpc_Name = ''web'', cpc_Ports = [\<lparr>cp_Name = ''http'', cp_HostPort = 40000, cp_ContainerPort = 80, cp_Protocol = [], cp_HostIP = []\<rparr>]\<rparr>,
            \<lparr>cpc_Name = ''web'', cpc_Ports = [\<lparr>cp_Name = ''metrics'', cp_HostPort = 9000, cp_ContainerPort = 9100, cp_Protocol = [], cp_HostIP = []\<rparr>]\<rparr>,
            \<lparr>cpc_Name = ''web'', cpc_Ports = [\<lparr>cp_Name = ''http'', cp_HostPort = 30000, cp_ContainerPort = 8080, cp_Protocol = [], cp_HostIP = []\<rparr>]\<rparr>]\<rparr>
       = [\<lparr>cp_Name = ''http'', cp_HostPort = 40000, cp_ContainerPort = 80, cp_Protocol = [], cp_HostIP = []\<rparr>,
          \<lparr>cp_Name = ''http'', cp_HostPort = 30000, cp_ContainerPort = 8080, cp_Protocol = [], cp_HostIP = []\<rparr>]
   \<and> (\<exists>spec'. HostPortHandler_Mutate id
          \<lparr>Volumes = [], Containers = [\<lparr>c_Name = ''web'', c_Image = [], c_Ports = [], c_Env = [], c_VolumeMounts = []\<rparr>]\<rparr>
          2
          (PortConfig \<lparr>pc_qualifier = [], pc_cfg = Some
             \<lparr>pcv_Containers =
                [\<lparr>cpc_Name = ''web'', cpc_Ports = [\<lparr>cp_Name = ''http'', cp_HostPort = 40000, cp_ContainerPort = 80, cp_Protocol = [], cp_HostIP = []\<rparr>]\<rparr>,
                 \<lparr>cpc_Name = ''web'', cpc_Ports = [\<lparr>cp_Name = ''metrics'', cp_HostPort = 9000, cp_ContainerPort = 9100, cp_Protocol = [], cp_HostIP = []\<rparr>]\<rparr>,
                 \<lparr>cpc_Name = ''web'', cpc_Ports = [\<lparr>cp_Name = ''http'', cp_HostPort = 30000, cp_ContainerPort = 8080, cp_Protocol = [], cp_HostIP = []\<rparr>]\<rparr>]\<rparr>\<rparr>)
          = Some (spec', None)
        \<and> port_named ''http'' (c_Ports (Containers spec' ! 0))
            = Some \<lparr>cp_Name = ''http'', cp_HostPort = 30002, cp_ContainerPort = 80, cp_Protocol = [], cp_HostIP = []\<rparr>
        \<and> env_named ''PORT_http'' (c_Env (Containers spec' ! 0))
            = Some \<lparr>ev_Name = ''PORT_http'', ev_Value = ''30002''\<rparr>)"
proof -
  let ?p4 = "\<lparr>cp_Name = ''http'', cp_HostPort = 40000, cp_ContainerPort = 80, cp_Protocol = [], cp_HostIP = []\<rparr>"
  let ?pm = "\<lparr>cp_Name = ''metrics'', cp_HostPort = 9000, cp_ContainerPort = 9100, cp_Protocol = [], cp_HostIP = []\<rparr>"
  let ?p3 = "\<lparr>cp_Name = ''http'', cp_HostPort = 30000, cp_ContainerPort = 8080, cp_Protocol = [], cp_HostIP = []\<rparr>"
  let ?v = "\<lparr>pcv_Containers = [\<lparr>cpc_Name = ''web'', cpc_Ports = [?p4]\<rparr>,
              \<lparr>cpc_Name = ''web'', cpc_Ports = [?pm]\<rparr>, \<lparr>cpc_Name = ''web'', cpc_Ports = [?p3]\<rparr>]\<rparr>"
  let ?m = "\<lparr>pc_qualifier = [], pc_cfg = Some ?v\<rparr>"
  let ?spec = "\<lparr>Volumes = [], Containers = [\<lparr>c_Name = ''web'', c_Image = [], c_Ports = [], c_Env = [], c_VolumeMounts = []\<rparr>]\<rparr>"
  have h1: "CommonPodQualifier 2 (pc_qualifier ?m) = Some True"
    by (simp add: CommonPodQualifier_def)
  have h2: "pc_cfg ?m = Some ?v" by simp
  have h3: "0 < length (Containers ?spec)" by simp
  have nm: "c_Name (Containers ?spec ! 0) = ''web''" by simp
  have dp: "declared_ports ''web'' ''http'' ?v = [?p4, ?p3]" by code_simp
  have h4: "declared_ports (c_Name (Containers ?spec ! 0)) ''http'' ?v \<noteq> []"
    unfolding nm dp by simp
  have h5: "cp_HostPort (last (declared_ports (c_Name (Containers ?spec ! 0)) ''http'' ?v)) = 30000"
    unfolding nm dp by simp
  have h6: "range_order (id :: (string \<times> string) list \<Rightarrow> (string \<times> string) list)"
    by (simp add: range_order_def)
  have old: "port_named ''http'' (c_Ports (Containers ?spec ! 0)) = None"
    by (simp add: port_named_def)
  from HostPortHandler_Mutate_http [OF h1 h2 h3 h4 h5 h6] show ?thesis
  proof (elim exE conjE)
    fix spec'
    assume run: "HostPortHandler_Mutate id ?spec 2 (PortConfig ?m) = Some (spec', None)"
      and port: "port_named ''http'' (c_Ports (Containers spec' ! 0)) =
               Some ((case port_named ''http'' (c_Ports (Containers ?spec ! 0)) of
                        Some q \<Rightarrow> q
                      | None \<Rightarrow> hd (declared_ports (c_Name (Containers ?spec ! 0)) ''http'' ?v))
                       \<lparr>cp_HostPort := 30002\<rparr>)"
      and env: "env_named ''PORT_http'' (c_Env (Containers spec' ! 0)) =
               Some \<lparr>ev_Name = ''PORT_http'', ev_Value = ''30002''\<rparr>"
    from port have port': "port_named ''http'' (c_Ports (Containers spec' ! 0))
            = Some \<lparr>cp_Name = ''http'', cp_HostPort = 30002, cp_ContainerPort = 80, cp_Protocol = [], cp_HostIP = []\<rparr>"
      unfolding old nm dp by simp
    have e: "CommonPodQualifier 2 [] = Some True" using h1 by simp
    from e dp run port' env show ?thesis
      by (intro conjI exI [of _ spec'])
  qed
qed

text \<open>
  The claim as it was written: the configuration declares \<open>http\<close> with base 30000 for the
  container \<open>web\<close> of the pod, and again with base 40000. The host port and \<open>PORT_http\<close> are
  40002, not 30002.
\<close>

theorem HostPortHandler_Mutate_http_counterexample:
  "CommonPodQualifier 2 [] = Some True
   \<and> HostPortHandler_Mutate id
       \<lparr>Volumes = [], Containers = [\<lparr>c_Name = ''web'', c_Image = [], c_Ports = [], c_Env = [], c_VolumeMounts = []\<rparr>]\<rparr>
       2
       (PortConfig \<lparr>pc_qualifier = [], pc_cfg = Some
          \<lparr>pcv_Containers =
             [\<lparr>cpc_Name = ''web'', cpc_Ports =
                 [\<lparr>cp_Name = ''http'', cp_HostPort = 30000, cp_ContainerPort = 8080, cp_Protocol = [], cp_HostIP = []\<rparr>,
                  \<lparr>cp_Name = ''http'', cp_HostPort = 40000, cp_ContainerPort = 8080, cp_Protocol = [], cp_HostIP = []\<rparr>]\<rparr>]\<rparr>\<rparr>)
     = Some (\<lparr>Volumes = [], Containers =
               [\<lparr>c_Name = ''web'', c_Image = [],
                 c_Ports = [\<lparr>cp_Name = ''http'', cp_HostPort = 40002, cp_ContainerPort = 8080, cp_Protocol = [], cp_HostIP = []\<rparr>],
                 c_Env = [\<lparr>ev_Name = ''POD_ORDINAL'', ev_Value = ''2''\<rparr>, \<lparr>ev_Name = ''PORT_http'', ev_Value = ''40002''\<rparr>],
                 c_VolumeMounts = []\<rparr>]\<rparr>, None)"
  by code_simp

end
